theory Spec2Isabelle
  imports Main
begin

section \<open>Python values and string primitives used by \<open>function_app.py\<close>\<close>

text \<open>
  Strings are lists of characters. A database or JSON value is either the null value
  (\<open>None\<close>), a string, or an integer; \<open>py_str\<close> is Python's \<open>str()\<close> on the
  non-null ones.
\<close>

datatype py_value = PyNone | PyStr string | PyInt int

datatype py_error =
    IndexError
  | ColumnNotFoundError
  | DuplicateError
  | ShapeError
  | StorageError
  | ComputeError
  | ConnectError
  | DatabaseError

definition dq :: char where
  "dq = CHR 0x22"

definition tab :: char where
  "tab = CHR 0x09"

definition newline :: char where
  "newline = CHR 0x0A"

definition cr :: char where
  "cr = CHR 0x0D"

fun digits10 :: "nat \<Rightarrow> string" where
  "digits10 n =
     (if n < 10 then [''0123456789'' ! n]
      else digits10 (n div 10) @ [''0123456789'' ! (n mod 10)])"

definition str_int :: "int \<Rightarrow> string" where
  "str_int i = (if i < 0 then CHR ''-'' # digits10 (nat (- i)) else digits10 (nat i))"

fun py_str :: "py_value \<Rightarrow> string" where
  "py_str PyNone = ''None''"
| "py_str (PyStr s) = s"
| "py_str (PyInt i) = str_int i"

text \<open>
  \<open>str.zfill(width)\<close>: a string at least \<open>width\<close> long is returned as it is; otherwise
  zeros are inserted on the left, after a leading sign character if there is one.
\<close>

definition zfill :: "string \<Rightarrow> nat \<Rightarrow> string" where
  "zfill s width =
     (if length s \<ge> width then s
      else (case s of
              c # rest \<Rightarrow>
                (if c = CHR ''+'' \<or> c = CHR ''-''
                 then c # replicate (width - length s) CHR ''0'' @ rest
                 else replicate (width - length s) CHR ''0'' @ s)
            | [] \<Rightarrow> replicate width CHR ''0''))"

text \<open>\<open>s.replace('"', '""')\<close>: every double quote is replaced by two.\<close>

fun replace_dq :: "string \<Rightarrow> string" where
  "replace_dq [] = []"
| "replace_dq (c # cs) = (if c = dq then dq # dq # replace_dq cs else c # replace_dq cs)"

text \<open>The inverse reading of a doubled string, used to state that doubling loses nothing.\<close>

fun undouble_dq :: "string \<Rightarrow> string" where
  "undouble_dq (a # b # cs) =
     (if a = dq \<and> b = dq then dq # undouble_dq cs else a # undouble_dq (b # cs))"
| "undouble_dq cs = cs"

text \<open>\<open>sep.join(parts)\<close>.\<close>

fun join :: "string \<Rightarrow> string list \<Rightarrow> string" where
  "join sep [] = []"
| "join sep [p] = p"
| "join sep (p # q # ps) = p @ sep @ join sep (q # ps)"

section \<open>Chunked Exporter: rendering of rows (\<open>export_clean_data_to_csv_chunked\<close>)\<close>

definition headers :: "string list" where
  "headers =
     [''npi'', ''entity_type'', ''entity_name'', ''provider_location_address_1'',
      ''provider_location_address_2'', ''provider_city'', ''provider_state'',
      ''provider_postal_code_clean'', ''county_name'', ''state_name'',
      ''primary_taxonomy_code'', ''taxonomy_grouping'', ''taxonomy_classification'',
      ''taxonomy_specialization'', ''data_quality_score'']"

text \<open>
  The body of the inner loop \<open>for i, value in enumerate(row)\<close>: the piece appended to
  \<open>escaped_row\<close> for the value at position \<open>i\<close>. \<open>headers[i]\<close> is read only for a
  non-null value and raises \<open>IndexError\<close> beyond the fifteen headers.
\<close>

definition escape_value :: "nat \<Rightarrow> py_value \<Rightarrow> py_error + string" where
  "escape_value i v =
     (case v of
        PyNone \<Rightarrow> Inr [dq, dq]
      | _ \<Rightarrow>
          (if i < length headers then
             (let str_value =
                    (if headers ! i = ''provider_postal_code_clean''
                     then zfill (py_str v) 5 else py_str v)
              in Inr (dq # replace_dq str_value @ [dq]))
           else Inl IndexError))"

text \<open>The loop over the values of one row, from position \<open>i\<close> on; the first error stops it.\<close>

fun escape_from :: "nat \<Rightarrow> py_value list \<Rightarrow> py_error + string list" where
  "escape_from i [] = Inr []"
| "escape_from i (v # vs) =
     (case escape_value i v of
        Inl e \<Rightarrow> Inl e
      | Inr f \<Rightarrow> (case escape_from (Suc i) vs of Inl e \<Rightarrow> Inl e | Inr fs \<Rightarrow> Inr (f # fs)))"

definition escaped_row :: "py_value list \<Rightarrow> py_error + string list" where
  "escaped_row row = escape_from 0 row"

text \<open>The line appended to \<open>csv_content\<close> for one row.\<close>

definition render_row :: "py_value list \<Rightarrow> py_error + string" where
  "render_row row = (case escaped_row row of Inl e \<Rightarrow> Inl e | Inr fs \<Rightarrow> Inr (join '','' fs))"

text \<open>The header line: every header name in double quotes, joined by commas.\<close>

definition header_line :: string where
  "header_line = join '','' (map (\<lambda>col. dq # col @ [dq]) headers)"

section \<open>Chunked Exporter: the pagination loop\<close>

text \<open>
  The store-side function \<open>get_export_chunk(limit, offset)\<close> is opaque to the exporter:
  here it is a parameter \<open>fetch\<close>, which returns the rows of a page or raises. The loop
  \<open>while True\<close> has no bound of its own, so the model counts it down with fuel; running
  out of fuel is the value \<open>None\<close>.
\<close>

type_synonym row = "py_value list"

record export_state =
  chunk_start :: nat
  csv_content :: "string list"
  processed_count :: nat
  calls :: "(nat \<times> nat) list"

text \<open>The loop \<open>for row in rows\<close>: one line per row, stopping at the first error.\<close>

fun render_rows :: "row list \<Rightarrow> py_error + string list" where
  "render_rows [] = Inr []"
| "render_rows (r # rs) =
     (case render_row r of
        Inl e \<Rightarrow> Inl e
      | Inr l \<Rightarrow> (case render_rows rs of Inl e \<Rightarrow> Inl e | Inr ls \<Rightarrow> Inr (l # ls)))"

text \<open>
  One iteration per unit of fuel. \<open>calls\<close> records the arguments
  \<open>(chunk_size, chunk_start)\<close> of every call of the paginated read function.
\<close>

fun export_loop ::
  "nat \<Rightarrow> (nat \<Rightarrow> nat \<Rightarrow> py_error + row list) \<Rightarrow> nat \<Rightarrow> export_state
     \<Rightarrow> (py_error + export_state) option" where
  "export_loop 0 fetch chunk_size s = None"
| "export_loop (Suc fuel) fetch chunk_size s =
     (let s1 = s\<lparr>calls := calls s @ [(chunk_size, chunk_start s)]\<rparr> in
      case fetch chunk_size (chunk_start s) of
        Inl e \<Rightarrow> Some (Inl e)
      | Inr rows \<Rightarrow>
          (if rows = [] then Some (Inr s1)
           else (case render_rows rows of
                   Inl e \<Rightarrow> Some (Inl e)
                 | Inr lines \<Rightarrow>
                     (let s2 = s1\<lparr>csv_content := csv_content s1 @ lines,
                                    processed_count := processed_count s1 + length rows,
                                    chunk_start := chunk_start s1 + chunk_size\<rparr>
                      in if length rows < chunk_size then Some (Inr s2)
                         else export_loop fuel fetch chunk_size s2))))"

definition export_init :: export_state where
  "export_init =
     \<lparr>chunk_start = 0, csv_content = [header_line], processed_count = 0, calls = []\<rparr>"

text \<open>
  The whole of \<open>export_clean_data_to_csv_chunked\<close>. \<open>connect_ok\<close> says whether
  \<open>get_psycopg2_connection\<close> succeeds; \<open>upload\<close> is \<open>upload_csv_to_azure_blob\<close>, which
  returns \<open>None\<close> on success and the error text otherwise. Every exception is caught and
  turned into the result \<open>False\<close>.
\<close>

definition export_clean_data_to_csv_chunked ::
  "nat \<Rightarrow> bool \<Rightarrow> (nat \<Rightarrow> nat \<Rightarrow> py_error + row list) \<Rightarrow> (string \<Rightarrow> string \<Rightarrow> string option)
     \<Rightarrow> nat \<Rightarrow> string \<Rightarrow> bool option" where
  "export_clean_data_to_csv_chunked fuel connect_ok fetch upload chunk_size output_filename =
     (if \<not> connect_ok then Some False
      else (case export_loop fuel fetch chunk_size export_init of
              None \<Rightarrow> None
            | Some (Inl e) \<Rightarrow> Some False
            | Some (Inr s) \<Rightarrow>
                (let final_csv = join [newline] (csv_content s)
                 in Some (upload output_filename final_csv = None))))"

text \<open>
  Modelled from the spec: the stored function \<open>get_export_chunk\<close> is not part of
  \<open>function_app.py\<close>; the spec describes it as a paginated row reader taking
  \<open>(limit, offset)\<close> over the cleaned view. Over a view \<open>view\<close> it returns at most
  \<open>limit\<close> rows from position \<open>offset\<close> on.
\<close>

definition get_export_chunk :: "row list \<Rightarrow> nat \<Rightarrow> nat \<Rightarrow> py_error + row list" where
  "get_export_chunk view limit offset = Inr (take limit (drop offset view))"

section \<open>Lazy datasets (the part of the polars API the pipeline uses)\<close>

text \<open>
  A table is an ordered list of column names with its rows. A lazy frame is the query
  plan that \<open>scan_csv\<close>, \<open>select\<close> and \<open>rename\<close> build; nothing is evaluated until
  \<open>collect\<close>, which is where a plan naming a column the source does not have fails.
  This is the lazy evaluation of the library's \<open>LazyFrame\<close>, on which the code relies:
  the loader calls \<open>collect\<close> on every slice it takes. \<open>select\<close> rejects a column that
  is missing or named twice, \<open>rename\<close> a key that is no column and a result with a name
  twice. \<open>schema_overrides\<close> only changes the types of the parsed values and is left
  out.
\<close>

record table =
  columns :: "string list"
  rows :: "row list"

datatype lazy_frame =
    ScanCsv table
  | Select "string list" lazy_frame
  | Rename "(string \<times> string) list" lazy_frame

fun index_of :: "string \<Rightarrow> string list \<Rightarrow> nat" where
  "index_of c [] = 0"
| "index_of c (x # xs) = (if x = c then 0 else Suc (index_of c xs))"

definition cell :: "row \<Rightarrow> nat \<Rightarrow> py_value" where
  "cell r i = (if i < length r then r ! i else PyNone)"

definition rename_col :: "(string \<times> string) list \<Rightarrow> string \<Rightarrow> string" where
  "rename_col column_mapping c = (case map_of column_mapping c of Some c' \<Rightarrow> c' | None \<Rightarrow> c)"

fun collect :: "lazy_frame \<Rightarrow> py_error + table" where
  "collect (ScanCsv t) = Inr t"
| "collect (Select cols lf) =
     (case collect lf of
        Inl e \<Rightarrow> Inl e
      | Inr t \<Rightarrow>
          (if \<not> set cols \<subseteq> set (columns t) then Inl ColumnNotFoundError
           else if \<not> distinct cols then Inl DuplicateError
           else Inr \<lparr>columns = cols,
                     rows = map (\<lambda>r. map (\<lambda>c. cell r (index_of c (columns t))) cols) (rows t)\<rparr>))"
| "collect (Rename column_mapping lf) =
     (case collect lf of
        Inl e \<Rightarrow> Inl e
      | Inr t \<Rightarrow>
          (if \<not> fst ` set column_mapping \<subseteq> set (columns t) then Inl ColumnNotFoundError
           else if \<not> distinct (map (rename_col column_mapping) (columns t))
           then Inl DuplicateError
           else Inr (t\<lparr>columns := map (rename_col column_mapping) (columns t)\<rparr>)))"

text \<open>\<open>lazy_df.slice(offset, length).collect()\<close>.\<close>

definition collect_slice :: "lazy_frame \<Rightarrow> nat \<Rightarrow> nat \<Rightarrow> py_error + table" where
  "collect_slice lazy_df offset len =
     (case collect lazy_df of
        Inl e \<Rightarrow> Inl e
      | Inr t \<Rightarrow> Inr (t\<lparr>rows := take len (drop offset (rows t))\<rparr>))"

section \<open>The relational store\<close>

text \<open>
  The store holds the committed contents of every table; a connection sees its own
  working contents, which \<open>commit\<close> makes durable and \<open>rollback\<close> discards. \<open>trace\<close>
  records, in order, the windows the loader materializes and every statement it issues.
  A bulk copy of a window appends the window's rows to the table; the tab-separated
  text the loader writes for the window, and the store's reading of it, are not
  modelled.
\<close>

datatype stmt = StTruncate | StCopy | StCommit

datatype event =
    Collect nat nat nat
  | Truncate string
  | CopyFrom string "string list" "row list"
  | Commit
  | Rollback
  | Close

record pg =
  committed :: "string \<Rightarrow> row list"
  working :: "string \<Rightarrow> row list"
  trace :: "event list"

definition log_event :: "event \<Rightarrow> pg \<Rightarrow> pg" where
  "log_event ev d = d\<lparr>trace := trace d @ [ev]\<rparr>"

text \<open>
  Modelled from the spec: the stored procedure \<open>truncate_table\<close> is not part of
  \<open>function_app.py\<close>; the spec calls it the store-side truncate procedure for the table.
  It empties the table inside the current transaction. The flag says whether the
  statement fails; a failed statement changes nothing.
\<close>

definition execute_truncate :: "bool \<Rightarrow> string \<Rightarrow> pg \<Rightarrow> py_error option \<times> pg" where
  "execute_truncate fails target_table d =
     (let d1 = log_event (Truncate target_table) d
      in if fails then (Some DatabaseError, d1)
         else (None, d1\<lparr>working := (working d1)(target_table := [])\<rparr>))"

definition copy_from ::
  "bool \<Rightarrow> string \<Rightarrow> string list \<Rightarrow> row list \<Rightarrow> pg \<Rightarrow> py_error option \<times> pg" where
  "copy_from fails target_table cols rs d =
     (let d1 = log_event (CopyFrom target_table cols rs) d
      in if fails then (Some DatabaseError, d1)
         else (None, d1\<lparr>working := (working d1)(target_table := working d1 target_table @ rs)\<rparr>))"

definition commit :: "bool \<Rightarrow> pg \<Rightarrow> py_error option \<times> pg" where
  "commit fails d =
     (let d1 = log_event Commit d
      in if fails then (Some DatabaseError, d1) else (None, d1\<lparr>committed := working d1\<rparr>))"

definition rollback :: "pg \<Rightarrow> pg" where
  "rollback d = (log_event Rollback d)\<lparr>working := committed d\<rparr>"

text \<open>A new connection of \<open>get_psycopg2_connection\<close> starts from the committed contents.\<close>

definition connect :: "pg \<Rightarrow> pg" where
  "connect d = d\<lparr>working := committed d\<rparr>"

definition close :: "pg \<Rightarrow> pg" where
  "close d = (log_event Close d)\<lparr>working := committed d\<rparr>"

section \<open>Chunked Loader (\<open>load_chunked_blob_data_to_postgres\<close>)\<close>

text \<open>
  The block \<open>with pg_conn.cursor() as cursor: try: \<dots> except: rollback; raise\<close> for the
  chunk numbered \<open>chunk_count\<close>. \<open>fails k st\<close> says whether statement \<open>st\<close> of chunk \<open>k\<close>
  fails in the store.
\<close>

definition insert_chunk ::
  "(nat \<Rightarrow> stmt \<Rightarrow> bool) \<Rightarrow> nat \<Rightarrow> string \<Rightarrow> table \<Rightarrow> pg \<Rightarrow> py_error option \<times> pg" where
  "insert_chunk fails chunk_count target_table batch_df d =
     (case (if chunk_count = 1 then execute_truncate (fails chunk_count StTruncate) target_table d
            else (None, d)) of
        (Some e, d1) \<Rightarrow> (Some e, rollback d1)
      | (None, d1) \<Rightarrow>
          (case copy_from (fails chunk_count StCopy) target_table (columns batch_df)
                  (rows batch_df) d1 of
             (Some e, d2) \<Rightarrow> (Some e, rollback d2)
           | (None, d2) \<Rightarrow>
               (case commit (fails chunk_count StCommit) d2 of
                  (Some e, d3) \<Rightarrow> (Some e, rollback d3)
                | (None, d3) \<Rightarrow> (None, d3))))"

record loader_state =
  chunk_count :: nat
  total_rows_processed :: nat
  conn :: pg

text \<open>
  The loop \<open>while True\<close>. The result is the exception that leaves the loop, if any,
  with the state at that point.
\<close>

function load_loop ::
  "(nat \<Rightarrow> stmt \<Rightarrow> bool) \<Rightarrow> lazy_frame \<Rightarrow> string \<Rightarrow> nat \<Rightarrow> loader_state
     \<Rightarrow> py_error option \<times> loader_state" where
  "load_loop fails lazy_df target_table chunk_size s =
     (let s1 = s\<lparr>chunk_count := chunk_count s + 1\<rparr> in
      case collect_slice lazy_df (total_rows_processed s1) chunk_size of
        Inl e \<Rightarrow> (Some e, s1)
      | Inr batch_df \<Rightarrow>
          (let s2 = s1\<lparr>conn := log_event
                      (Collect (total_rows_processed s1) chunk_size (length (rows batch_df)))
                      (conn s1)\<rparr>
           in if rows batch_df = [] then (None, s2)
              else if chunk_count s2 = 6 \<and> target_table = ''nppes_providers'' then (None, s2)
              else (case insert_chunk fails (chunk_count s2) target_table batch_df (conn s2) of
                      (Some e, d) \<Rightarrow> (Some e, s2\<lparr>conn := d\<rparr>)
                    | (None, d) \<Rightarrow>
                        (let s3 = s2\<lparr>conn := d,
                                      total_rows_processed :=
                                        total_rows_processed s2 + length (rows batch_df)\<rparr>
                         in if length (rows batch_df) < chunk_size then (None, s3)
                            else load_loop fails lazy_df target_table chunk_size s3))))"
  by pat_completeness auto
termination
proof (relation "measure (\<lambda>(fails, lazy_df, target_table, chunk_size, s).
    (case collect lazy_df of Inl e \<Rightarrow> 0 | Inr t \<Rightarrow> length (rows t)) - total_rows_processed s)")
  show "wf (measure (\<lambda>(fails, lazy_df, target_table, chunk_size, s).
    (case collect lazy_df of Inl e \<Rightarrow> 0 | Inr t \<Rightarrow> length (rows t)) - total_rows_processed s))"
    by simp
next
  fix fails :: "nat \<Rightarrow> stmt \<Rightarrow> bool" and lazy_df and target_table :: string
    and chunk_size and s s1 :: loader_state and batch_df s2 x d s3 and xa :: "py_error option"
  assume "collect_slice lazy_df (total_rows_processed s1) chunk_size = Inr batch_df"
    and "s1 = s\<lparr>chunk_count := chunk_count s + 1\<rparr>"
    and "rows batch_df \<noteq> []"
    and "s3 = s2\<lparr>conn := d, total_rows_processed :=
            total_rows_processed s2 + length (rows batch_df)\<rparr>"
    and "s2 = s1\<lparr>conn := log_event
            (Collect (total_rows_processed s1) chunk_size (length (rows batch_df))) (conn s1)\<rparr>"
  then show "((fails, lazy_df, target_table, chunk_size, s3),
              (fails, lazy_df, target_table, chunk_size, s))
      \<in> measure (\<lambda>(fails, lazy_df, target_table, chunk_size, s).
          (case collect lazy_df of Inl e \<Rightarrow> 0 | Inr t \<Rightarrow> length (rows t)) -
          total_rows_processed s)"
    by (auto simp: collect_slice_def split: sum.splits)
qed

declare load_loop.simps [simp del]

text \<open>
  The whole function: \<open>connect_ok\<close> says whether \<open>get_psycopg2_connection\<close> succeeds.
  The connection is closed on the normal path and by the outer handler, which re-raises.
\<close>

definition load_chunked_blob_data_to_postgres ::
  "bool \<Rightarrow> (nat \<Rightarrow> stmt \<Rightarrow> bool) \<Rightarrow> lazy_frame \<Rightarrow> string \<Rightarrow> nat \<Rightarrow> pg
     \<Rightarrow> py_error option \<times> pg" where
  "load_chunked_blob_data_to_postgres connect_ok fails lazy_df target_table chunk_size d =
     (if \<not> connect_ok then (Some ConnectError, d)
      else (case load_loop fails lazy_df target_table chunk_size
                   \<lparr>chunk_count = 0, total_rows_processed = 0, conn = connect d\<rparr> of
              (r, s) \<Rightarrow> (r, close (conn s))))"

subsection \<open>Vocabulary for stating what a run of the loader did\<close>

text \<open>Row Window number \<open>j\<close> (from 0) of a dataset for chunk size \<open>c\<close>.\<close>

definition window :: "nat \<Rightarrow> row list \<Rightarrow> nat \<Rightarrow> row list" where
  "window c rs j = take c (drop (j * c) rs)"

text \<open>The events of one chunk that is materialized, inserted and committed.\<close>

definition chunk_events :: "string \<Rightarrow> string list \<Rightarrow> nat \<Rightarrow> row list \<Rightarrow> nat \<Rightarrow> event list" where
  "chunk_events target_table cols c rs j =
     Collect (j * c) c (length (window c rs j)) #
     (if j = 0 then [Truncate target_table] else []) @
     [CopyFrom target_table cols (window c rs j), Commit]"

text \<open>The windows handed to the bulk copy, in order.\<close>

fun copied :: "event list \<Rightarrow> row list list" where
  "copied [] = []"
| "copied (CopyFrom t cols rs # evs) = rs # copied evs"
| "copied (ev # evs) = copied evs"

text \<open>The offset and length requested for each materialized window, in order.\<close>

fun collected :: "event list \<Rightarrow> (nat \<times> nat) list" where
  "collected [] = []"
| "collected (Collect off len n # evs) = (off, len) # collected evs"
| "collected (ev # evs) = collected evs"

text \<open>The tables for which the truncate procedure was called, in order.\<close>

fun truncated :: "event list \<Rightarrow> string list" where
  "truncated [] = []"
| "truncated (Truncate t # evs) = t # truncated evs"
| "truncated (ev # evs) = truncated evs"

text \<open>
  The loop state after \<open>m\<close> chunks have been inserted and committed, starting from the
  connection \<open>d\<close>: the loop counters, the table contents and the trace.
\<close>

definition after_chunks :: "string \<Rightarrow> table \<Rightarrow> nat \<Rightarrow> pg \<Rightarrow> nat \<Rightarrow> loader_state" where
  "after_chunks target_table t c d m =
     \<lparr>chunk_count = m,
      total_rows_processed = min (m * c) (length (rows t)),
      conn = (if m = 0 then d
              else \<lparr>committed = (working d)(target_table := take (m * c) (rows t)),
                    working = (working d)(target_table := take (m * c) (rows t)),
                    trace = trace d @
                      concat (map (chunk_events target_table (columns t) c (rows t)) [0..<m])\<rparr>)\<rparr>"

text \<open>
  \<open>ceil_div n c\<close> is \<open>ceil(n / c)\<close>. \<open>loaded_chunks\<close> is the number of chunks a run
  without store failures loads: all of them, or five at most for \<open>nppes_providers\<close>.
\<close>

definition ceil_div :: "nat \<Rightarrow> nat \<Rightarrow> nat" where
  "ceil_div n c = (n + c - 1) div c"

definition loaded_chunks :: "string \<Rightarrow> nat \<Rightarrow> nat \<Rightarrow> nat" where
  "loaded_chunks target_table n c =
     (if target_table = ''nppes_providers'' then min 5 (ceil_div n c) else ceil_div n c)"

text \<open>A store in which no statement fails, and a store whose tables are all empty.\<close>

definition no_faults :: "nat \<Rightarrow> stmt \<Rightarrow> bool" where
  "no_faults k st = False"

definition empty_pg :: pg where
  "empty_pg = \<lparr>committed = (\<lambda>t. []), working = (\<lambda>t. []), trace = []\<rparr>"

text \<open>A store in which exactly the bulk copy of chunk \<open>k\<close> fails.\<close>

definition fail_copy_at :: "nat \<Rightarrow> nat \<Rightarrow> stmt \<Rightarrow> bool" where
  "fail_copy_at k j st = (j = k \<and> st = StCopy)"

section \<open>Lazy Dataset Extractor (\<open>extract_csv_data_from_blob\<close>)\<close>

text \<open>
  The container \<open>nppes\<close> maps a blob name to its content, if the blob exists. A content
  either parses as delimited text into a table or it does not. \<open>storage_configured\<close>
  says whether the environment variable \<open>AzureWebJobsStorage\<close> is set.
\<close>

datatype blob = Unparsable | CsvFile table

record env =
  storage_configured :: bool
  blobs :: "string \<Rightarrow> blob option"

text \<open>
  The body of the \<open>try\<close> block: every exception it can raise. \<open>scan_csv\<close> reports a
  content that does not parse (a version of the library that leaves this to \<open>collect\<close>
  returns a plan here too); \<open>select\<close> and \<open>rename\<close> only extend the query plan.
\<close>

definition scan_csv :: "blob \<Rightarrow> py_error + lazy_frame" where
  "scan_csv file_buffer =
     (case file_buffer of Unparsable \<Rightarrow> Inl ComputeError | CsvFile t \<Rightarrow> Inr (ScanCsv t))"

definition extract_body ::
  "env \<Rightarrow> string \<Rightarrow> string list \<Rightarrow> (string \<times> string) list \<Rightarrow> py_error + lazy_frame" where
  "extract_body e filename relevant_columns column_mapping =
     (if \<not> storage_configured e then Inl StorageError
      else (case blobs e filename of
              None \<Rightarrow> Inl StorageError
            | Some file_buffer \<Rightarrow>
                (if relevant_columns = [] then scan_csv file_buffer
                 else (case scan_csv file_buffer of
                         Inl err \<Rightarrow> Inl err
                       | Inr lf0 \<Rightarrow>
                           Inr (Rename column_mapping (Select relevant_columns lf0))))))"

text \<open>\<open>except Exception: return None\<close>.\<close>

definition extract_csv_data_from_blob ::
  "env \<Rightarrow> string \<Rightarrow> string list \<Rightarrow> (string \<times> string) list \<Rightarrow> lazy_frame option" where
  "extract_csv_data_from_blob e filename relevant_columns column_mapping =
     (case extract_body e filename relevant_columns column_mapping of
        Inl err \<Rightarrow> None
      | Inr lazy_df \<Rightarrow> Some lazy_df)"

section \<open>The caller: the three delimited-text targets of \<open>NPPES_Data_Cleaning\<close>\<close>

definition zip_county_relevant_columns :: "string list" where
  "zip_county_relevant_columns =
     [''ZIP'', ''COUNTY'', ''USPS_ZIP_PREF_CITY'', ''USPS_ZIP_PREF_STATE'', ''RES_RATIO'',
      ''BUS_RATIO'', ''OTH_RATIO'', ''TOT_RATIO'']"

definition zip_county_column_mapping :: "(string \<times> string) list" where
  "zip_county_column_mapping =
     [(''ZIP'', ''zip''), (''COUNTY'', ''county''),
      (''USPS_ZIP_PREF_CITY'', ''usps_zip_pref_city''),
      (''USPS_ZIP_PREF_STATE'', ''usps_zip_pref_state''), (''RES_RATIO'', ''res_ratio''),
      (''BUS_RATIO'', ''bus_ratio''), (''OTH_RATIO'', ''oth_ratio''),
      (''TOT_RATIO'', ''tot_ratio'')]"

definition taxonomy_relevant_columns :: "string list" where
  "taxonomy_relevant_columns =
     [''Code'', ''Grouping'', ''Classification'', ''Specialization'']"

definition taxonomy_column_mapping :: "(string \<times> string) list" where
  "taxonomy_column_mapping =
     [(''Code'', ''code''), (''Grouping'', ''grouping''),
      (''Classification'', ''classification''), (''Specialization'', ''specialization'')]"

record request_body =
  csv_target_file_1 :: string
  csv_target_file_2 :: string
  csv_target_file_3 :: string

text \<open>
  One target: extract, and load unless the result is \<open>None\<close>. An exception of the loader
  is not caught here.
\<close>

definition load_csv_target ::
  "env \<Rightarrow> bool \<Rightarrow> (nat \<Rightarrow> stmt \<Rightarrow> bool) \<Rightarrow> string \<Rightarrow> string list \<Rightarrow> (string \<times> string) list
     \<Rightarrow> string \<Rightarrow> pg \<Rightarrow> py_error option \<times> pg" where
  "load_csv_target e connect_ok fails filename relevant_columns column_mapping target_table d =
     (case extract_csv_data_from_blob e filename relevant_columns column_mapping of
        None \<Rightarrow> (None, d)
      | Some lazy_df \<Rightarrow>
          load_chunked_blob_data_to_postgres connect_ok fails lazy_df target_table 100000 d)"

text \<open>
  The three targets in the order of \<open>NPPES_Data_Cleaning\<close>. An exception ends the
  function in its handler, which answers with status 500; the later targets are not
  reached.
\<close>

definition load_csv_targets ::
  "env \<Rightarrow> bool \<Rightarrow> (nat \<Rightarrow> stmt \<Rightarrow> bool) \<Rightarrow> request_body \<Rightarrow> pg \<Rightarrow> py_error option \<times> pg" where
  "load_csv_targets e connect_ok fails body d =
     (case load_csv_target e connect_ok fails (csv_target_file_1 body)
             zip_county_relevant_columns zip_county_column_mapping ''zip_county'' d of
        (Some err, d1) \<Rightarrow> (Some err, d1)
      | (None, d1) \<Rightarrow>
          (case load_csv_target e connect_ok fails (csv_target_file_2 body) [] []
                  ''ssa_fips_state_county'' d1 of
             (Some err, d2) \<Rightarrow> (Some err, d2)
           | (None, d2) \<Rightarrow>
               load_csv_target e connect_ok fails (csv_target_file_3 body)
                 taxonomy_relevant_columns taxonomy_column_mapping ''nucc_taxonomy'' d2))"

section \<open>API Snapshot Loader (\<open>load_api_data\<close>)\<close>

text \<open>
  The API answers with a list of rows of JSON strings and nulls, the first row being the
  header. A cell is \<open>Some s\<close> or \<open>None\<close> for null.
\<close>

type_synonym api_cell = "string option"

record api_row =
  name :: api_cell
  population :: api_cell
  state_fips :: api_cell
  county_fips :: api_cell

record typed_row =
  t_name :: api_cell
  t_population :: "int option"
  t_state_fips :: api_cell
  t_county_fips :: api_cell

text \<open>
  \<open>zip(*rows)\<close>: the columns of the rows, cut to the length of the shortest row.
\<close>

definition shortest :: "'a list list \<Rightarrow> nat" where
  "shortest rs = (case rs of [] \<Rightarrow> 0 | r # rest \<Rightarrow> fold (\<lambda>x m. min (length x) m) rest (length r))"

definition zip_star :: "'a list list \<Rightarrow> 'a list list" where
  "zip_star rs = map (\<lambda>i. map (\<lambda>r. r ! i) rs) [0..<shortest rs]"

text \<open>
  \<open>polars.DataFrame(dict(zip(headers, zip(*rows))))\<close> with \<open>header_row\<close> for \<open>headers\<close>, then \<open>rename\<close> and \<open>select\<close>:
  in a dictionary the last value given for a key counts; a header that is null is no
  column name; renaming needs its four source columns and must not produce a name twice.
\<close>

definition api_frame :: "api_cell list list \<Rightarrow> py_error + api_row list" where
  "api_frame data =
     (case data of
        [] \<Rightarrow> Inl IndexError
      | header_row # rs \<Rightarrow>
          (let d = zip header_row (zip_star rs);
               col = (\<lambda>k. map_of (rev d) (Some k))
           in if None \<in> fst ` set d then Inl ComputeError
              else (case (col ''NAME'', col ''B01001_001E'', col ''state'', col ''county'') of
                      (Some c1, Some c2, Some c3, Some c4) \<Rightarrow>
                        (if col ''name'' \<noteq> None \<or> col ''population'' \<noteq> None \<or>
                            col ''state_fips'' \<noteq> None \<or> col ''county_fips'' \<noteq> None
                         then Inl DuplicateError
                         else Inr (map (\<lambda>i. \<lparr>name = c1 ! i, population = c2 ! i,
                                              state_fips = c3 ! i, county_fips = c4 ! i\<rparr>)
                                     [0..<length rs]))
                    | _ \<Rightarrow> Inl ColumnNotFoundError)))"

text \<open>
  \<open>cast(polars.Int32, strict=False)\<close> on the population column: \<open>to_int32\<close> is the
  library's reading of a string as a 32-bit integer, \<open>None\<close> where the string is not
  coercible. A null stays null.
\<close>

definition cast_population :: "(string \<Rightarrow> int option) \<Rightarrow> api_row \<Rightarrow> typed_row" where
  "cast_population to_int32 r =
     \<lparr>t_name = name r,
      t_population = (case population r of None \<Rightarrow> None | Some s \<Rightarrow> to_int32 s),
      t_state_fips = state_fips r,
      t_county_fips = county_fips r\<rparr>"

text \<open>The filter of the rows without a null in any of the four columns.\<close>

definition is_complete :: "typed_row \<Rightarrow> bool" where
  "is_complete r \<longleftrightarrow>
     t_population r \<noteq> None \<and> t_name r \<noteq> None \<and> t_state_fips r \<noteq> None \<and>
     t_county_fips r \<noteq> None"

text \<open>
  \<open>cast(str).fill_null("").str.strip_chars()\<close>: white space is removed at both ends.
\<close>

definition is_space :: "char \<Rightarrow> bool" where
  "is_space ch \<longleftrightarrow>
     (let k = (of_char ch :: nat) in (9 \<le> k \<and> k \<le> 13) \<or> k = 32 \<or> k = 133 \<or> k = 160)"

definition strip_chars :: "string \<Rightarrow> string" where
  "strip_chars s = rev (dropWhile is_space (rev (dropWhile is_space s)))"

definition fill_null :: "api_cell \<Rightarrow> string" where
  "fill_null v = (case v of None \<Rightarrow> [] | Some s \<Rightarrow> s)"

definition as_strings :: "typed_row \<Rightarrow> string list" where
  "as_strings r =
     [strip_chars (fill_null (t_name r)),
      strip_chars (fill_null (map_option str_int (t_population r))),
      strip_chars (fill_null (t_state_fips r)),
      strip_chars (fill_null (t_county_fips r))]"

text \<open>The filter of the rows in which not every field is empty.\<close>

definition not_blank :: "string list \<Rightarrow> bool" where
  "not_blank fs \<longleftrightarrow> (\<exists>f \<in> set fs. length f > 0)"

text \<open>Lines 42 to 67: the frame after casting, both filters and the conversion to strings.\<close>

definition clean_frame :: "(string \<Rightarrow> int option) \<Rightarrow> api_row list \<Rightarrow> string list list" where
  "clean_frame to_int32 df =
     filter not_blank (map as_strings (filter is_complete (map (cast_population to_int32) df)))"

text \<open>
  \<open>write_csv(separator="\t", include_header=False)\<close>: a field is quoted when it is empty
  or holds the separator, a double quote or a line terminator; one line per row, each
  ended by a newline.
\<close>

definition needs_quotes :: "string \<Rightarrow> bool" where
  "needs_quotes f \<longleftrightarrow> f = [] \<or> (\<exists>ch \<in> set f. ch = tab \<or> ch = dq \<or> ch = newline \<or> ch = cr)"

definition csv_field :: "string \<Rightarrow> string" where
  "csv_field f = (if needs_quotes f then dq # replace_dq f @ [dq] else f)"

definition csv_line :: "string list \<Rightarrow> string" where
  "csv_line fs = join [tab] (map csv_field fs)"

definition write_csv :: "string list list \<Rightarrow> string" where
  "write_csv df = concat (map (\<lambda>fs. csv_line fs @ [newline]) df)"

text \<open>
  \<open>str.splitlines()\<close>: a line ends at a line boundary, which is dropped; a carriage return
  followed by a newline is one boundary; what follows the last boundary is a line if it is
  not empty. \<open>cur\<close> is the line read so far.
\<close>

definition is_linebreak :: "char \<Rightarrow> bool" where
  "is_linebreak ch \<longleftrightarrow>
     (let k = (of_char ch :: nat)
      in (10 \<le> k \<and> k \<le> 13) \<or> (28 \<le> k \<and> k \<le> 30) \<or> k = 133)"

fun splitlines_from :: "string \<Rightarrow> string \<Rightarrow> string list" where
  "splitlines_from cur [] = (if cur = [] then [] else [cur])"
| "splitlines_from cur [ch] = (if is_linebreak ch then [cur] else [cur @ [ch]])"
| "splitlines_from cur (ch # ch' # rest) =
     (if ch = cr \<and> ch' = newline then cur # splitlines_from [] rest
      else if is_linebreak ch then cur # splitlines_from [] (ch' # rest)
      else splitlines_from (cur @ [ch]) (ch' # rest))"

definition splitlines :: "string \<Rightarrow> string list" where
  "splitlines s = splitlines_from [] s"

text \<open>\<open>line.strip()\<close> is not empty: the line has a character that is not white space.\<close>

definition py_isspace :: "char \<Rightarrow> bool" where
  "py_isspace ch \<longleftrightarrow>
     (let k = (of_char ch :: nat)
      in (9 \<le> k \<and> k \<le> 13) \<or> (28 \<le> k \<and> k \<le> 32) \<or> k = 133 \<or> k = 160)"

definition strip_nonempty :: "string \<Rightarrow> bool" where
  "strip_nonempty line \<longleftrightarrow> (\<exists>ch \<in> set line. \<not> py_isspace ch)"

text \<open>\<open>line.split("\t")\<close>.\<close>

fun split_on :: "char \<Rightarrow> string \<Rightarrow> string list" where
  "split_on sep [] = [[]]"
| "split_on sep (ch # rest) =
     (if ch = sep then [] # split_on sep rest
      else (case split_on sep rest of p # ps \<Rightarrow> (ch # p) # ps | [] \<Rightarrow> [[ch]]))"

text \<open>Lines 74 to 79.\<close>

definition cleaned_lines :: "string \<Rightarrow> string list" where
  "cleaned_lines output =
     filter (\<lambda>line. strip_nonempty line \<and> length (split_on tab line) = 4) (splitlines output)"

text \<open>
  The text handed to \<open>copy_from\<close> and the rows the bulk copy reads from it: one row per
  line, the fields between tabs, an empty field being null. A line that does not have
  the four columns makes the copy fail.
\<close>

definition clean_output :: "string list \<Rightarrow> string" where
  "clean_output ls = join [newline] ls @ [newline]"

definition copy_rows :: "string \<Rightarrow> py_error + row list" where
  "copy_rows text =
     (let ls = butlast (split_on newline text)
      in if \<exists>l \<in> set ls. length (split_on tab l) \<noteq> 4 then Inl DatabaseError
         else Inr (map (\<lambda>l. map (\<lambda>f. if f = [] then PyNone else PyStr f) (split_on tab l)) ls))"

text \<open>The lines that \<open>load_api_data\<close> loads for a given answer of the API.\<close>

definition api_lines :: "(string \<Rightarrow> int option) \<Rightarrow> api_cell list list \<Rightarrow> py_error + string list" where
  "api_lines to_int32 data =
     (case api_frame data of
        Inl err \<Rightarrow> Inl err
      | Inr df \<Rightarrow> Inr (cleaned_lines (write_csv (clean_frame to_int32 df))))"

text \<open>
  The whole function: one bulk copy into \<open>census_county_population\<close>, committed, or rolled
  back and re-raised. \<open>fails\<close> is asked about chunk number 1 of this one load.
\<close>

definition load_api_data ::
  "(string \<Rightarrow> int option) \<Rightarrow> bool \<Rightarrow> (nat \<Rightarrow> stmt \<Rightarrow> bool) \<Rightarrow> api_cell list list \<Rightarrow> pg
     \<Rightarrow> py_error option \<times> pg" where
  "load_api_data to_int32 connect_ok fails data d =
     (case api_lines to_int32 data of
        Inl err \<Rightarrow> (Some err, d)
      | Inr ls \<Rightarrow>
          (if \<not> connect_ok then (Some ConnectError, d)
           else (let d0 = connect d;
                     target_table = ''census_county_population'';
                     db_columns = [''name'', ''population'', ''state_fips'', ''county_fips'']
                 in case copy_rows (clean_output ls) of
                      Inl err \<Rightarrow>
                        (Some err,
                         close (rollback (log_event (CopyFrom target_table db_columns []) d0)))
                    | Inr rs \<Rightarrow>
                        (case copy_from (fails 1 StCopy) target_table db_columns rs d0 of
                           (Some err, d1) \<Rightarrow> (Some err, close (rollback d1))
                         | (None, d1) \<Rightarrow>
                             (case commit (fails 1 StCommit) d1 of
                                (Some err, d2) \<Rightarrow> (Some err, close (rollback d2))
                              | (None, d2) \<Rightarrow> (None, close d2))))))"

text \<open>
  One reading of a string as a 32-bit integer: decimal digits after an optional minus
  sign, within the range of the type.
\<close>

definition is_digit :: "char \<Rightarrow> bool" where
  "is_digit ch \<longleftrightarrow> (let k = (of_char ch :: nat) in 48 \<le> k \<and> k \<le> 57)"

definition digits_value :: "string \<Rightarrow> int" where
  "digits_value s = foldl (\<lambda>a ch. 10 * a + (int (of_char ch) - 48)) 0 s"

definition decimal_int32 :: "string \<Rightarrow> int option" where
  "decimal_int32 s =
     (let (neg, ds) = (case s of ch # rest \<Rightarrow> if ch = CHR ''-'' then (True, rest) else (False, s)
                       | [] \<Rightarrow> (False, s));
          v = (if neg then - digits_value ds else digits_value ds)
      in if ds \<noteq> [] \<and> list_all is_digit ds \<and> - 2147483648 \<le> v \<and> v \<le> 2147483647
         then Some v else None)"

section \<open>Properties of the rendering\<close>

lemma undouble_replace_dq: "undouble_dq (replace_dq s) = s"
proof (induction s)
  case Nil
  show ?case by simp
next
  case (Cons c cs)
  show ?case
  proof (cases "c = dq")
    case True
    with Cons show ?thesis by simp
  next
    case False
    with Cons show ?thesis by (cases cs) auto
  qed
qed

lemma length_zfill: "length (zfill s w) = max w (length s)"
  by (auto simp: zfill_def split: list.splits)

lemma zfill_unsigned:
  "s = [] \<or> (hd s \<noteq> CHR ''+'' \<and> hd s \<noteq> CHR ''-'') \<Longrightarrow>
     zfill s w = replicate (w - length s) CHR ''0'' @ s"
  by (auto simp: zfill_def split: list.splits)

lemma escape_from_fields:
  "i + length vs \<le> length headers \<Longrightarrow>
     \<exists>fs. escape_from i vs = Inr fs \<and> length fs = length vs \<and>
          (\<forall>k < length vs. escape_value (i + k) (vs ! k) = Inr (fs ! k))"
proof (induction vs arbitrary: i)
  case Nil
  show ?case by simp
next
  case (Cons v vs)
  from Cons.prems have i: "i < length headers" by simp
  then obtain f where f: "escape_value i v = Inr f"
    by (cases v) (auto simp: escape_value_def Let_def)
  from Cons.prems have "Suc i + length vs \<le> length headers" by simp
  from Cons.IH [OF this] obtain fs where fs: "escape_from (Suc i) vs = Inr fs"
    "length fs = length vs"
    "\<forall>k < length vs. escape_value (Suc i + k) (vs ! k) = Inr (fs ! k)" by blast
  have "\<forall>k < length (v # vs). escape_value (i + k) ((v # vs) ! k) = Inr ((f # fs) ! k)"
  proof (intro allI impI)
    fix k assume "k < length (v # vs)"
    then show "escape_value (i + k) ((v # vs) ! k) = Inr ((f # fs) ! k)"
      using f fs(3) by (cases k) auto
  qed
  with f fs show ?case by auto
qed

text \<open>
  Claim C7. For every exported row (with at most as many values as there are headers) and
  every column: the row is rendered as the comma-joined list of its fields; a null value
  is rendered as the two-character field of two double quotes; every other value is
  rendered as its string wrapped in double quotes, with every internal double quote
  doubled (so that the original text can be read back); in the column
  \<open>provider_postal_code_clean\<close> the string is first padded with zeros on the left to
  width 5 (a string of width 5 or more is kept). The row \<open>(None, "00501")\<close> renders as
  \<open>"","00501"\<close> and the postal value \<open>"501"\<close> renders as \<open>"00501"\<close>.
\<close>

theorem exporter_field_rendering:
  \<open>(length row \<le> length headers \<longrightarrow>
      (\<exists>fields. render_row row = Inr (join '','' fields) \<and> length fields = length row \<and>
         (\<forall>i < length row.
            (row ! i = PyNone \<longrightarrow> fields ! i = [dq, dq]) \<and>
            (row ! i \<noteq> PyNone \<longrightarrow>
               (\<exists>body. fields ! i = dq # replace_dq body @ [dq] \<and>
                  undouble_dq (replace_dq body) = body \<and>
                  (if headers ! i = ''provider_postal_code_clean''
                   then body = zfill (py_str (row ! i)) 5 \<and>
                        length body = max 5 (length (py_str (row ! i))) \<and>
                        (py_str (row ! i) = [] \<or>
                         (hd (py_str (row ! i)) \<noteq> CHR ''+'' \<and> hd (py_str (row ! i)) \<noteq> CHR ''-'') \<longrightarrow>
                           body = replicate (5 - length (py_str (row ! i))) CHR ''0'' @ py_str (row ! i))
                   else body = py_str (row ! i))))))) \<and>
   render_row [PyNone, PyStr ''00501''] = Inr ''"","00501"'' \<and>
   escape_value 7 (PyStr ''501'') = Inr ''"00501"''\<close>
proof (intro conjI impI)
  assume len: "length row \<le> length headers"
  then have "0 + length row \<le> length headers" by simp
  from escape_from_fields [OF this] obtain fs where fs: "escape_from 0 row = Inr fs"
    "length fs = length row" "\<forall>k < length row. escape_value k (row ! k) = Inr (fs ! k)"
    by auto
  have r: "render_row row = Inr (join '','' fs)"
    by (simp add: render_row_def escaped_row_def fs(1))
  have each: "(row ! i = PyNone \<longrightarrow> fs ! i = [dq, dq]) \<and>
            (row ! i \<noteq> PyNone \<longrightarrow>
               (\<exists>body. fs ! i = dq # replace_dq body @ [dq] \<and>
                  undouble_dq (replace_dq body) = body \<and>
                  (if headers ! i = ''provider_postal_code_clean''
                   then body = zfill (py_str (row ! i)) 5 \<and>
                        length body = max 5 (length (py_str (row ! i))) \<and>
                        (py_str (row ! i) = [] \<or>
                         (hd (py_str (row ! i)) \<noteq> CHR ''+'' \<and> hd (py_str (row ! i)) \<noteq> CHR ''-'') \<longrightarrow>
                           body = replicate (5 - length (py_str (row ! i))) CHR ''0'' @ py_str (row ! i))
                   else body = py_str (row ! i))))" if i: "i < length row" for i
  proof -
    from i len have ih: "i < length headers" by simp
    from fs(3) i have e: "escape_value i (row ! i) = Inr (fs ! i)" by simp
    show ?thesis
    proof (cases "row ! i = PyNone")
      case True
      with e show ?thesis by (simp add: escape_value_def)
    next
      case False
      define body where "body =
        (if headers ! i = ''provider_postal_code_clean''
         then zfill (py_str (row ! i)) 5 else py_str (row ! i))"
      from False e ih have "fs ! i = dq # replace_dq body @ [dq]"
        by (cases "row ! i") (auto simp: escape_value_def Let_def body_def)
      moreover have "undouble_dq (replace_dq body) = body"
        by (rule undouble_replace_dq)
      moreover have "if headers ! i = ''provider_postal_code_clean''
                   then body = zfill (py_str (row ! i)) 5 \<and>
                        length body = max 5 (length (py_str (row ! i))) \<and>
                        (py_str (row ! i) = [] \<or>
                         (hd (py_str (row ! i)) \<noteq> CHR ''+'' \<and> hd (py_str (row ! i)) \<noteq> CHR ''-'') \<longrightarrow>
                           body = replicate (5 - length (py_str (row ! i))) CHR ''0'' @ py_str (row ! i))
                   else body = py_str (row ! i)"
        using zfill_unsigned [of "py_str (row ! i)" 5]
        by (auto simp: body_def length_zfill)
      ultimately show ?thesis using False by blast
    qed
  qed
  show "\<exists>fields. render_row row = Inr (join '','' fields) \<and> length fields = length row \<and>
         (\<forall>i < length row.
            (row ! i = PyNone \<longrightarrow> fields ! i = [dq, dq]) \<and>
            (row ! i \<noteq> PyNone \<longrightarrow>
               (\<exists>body. fields ! i = dq # replace_dq body @ [dq] \<and>
                  undouble_dq (replace_dq body) = body \<and>
                  (if headers ! i = ''provider_postal_code_clean''
                   then body = zfill (py_str (row ! i)) 5 \<and>
                        length body = max 5 (length (py_str (row ! i))) \<and>
                        (py_str (row ! i) = [] \<or>
                         (hd (py_str (row ! i)) \<noteq> CHR ''+'' \<and> hd (py_str (row ! i)) \<noteq> CHR ''-'') \<longrightarrow>
                           body = replicate (5 - length (py_str (row ! i))) CHR ''0'' @ py_str (row ! i))
                   else body = py_str (row ! i)))))"
    using r fs(2) each by blast
next
  show \<open>render_row [PyNone, PyStr ''00501''] = Inr ''"","00501"''\<close>
    by (simp add: render_row_def escaped_row_def escape_value_def headers_def dq_def)
next
  show \<open>escape_value 7 (PyStr ''501'') = Inr ''"00501"''\<close>
    by (simp add: escape_value_def headers_def zfill_def dq_def eval_nat_numeral)
qed

text \<open>
  The theorem at a full row of fifteen values whose postal code is the integer 501 and
  whose entity name contains a double quote.
\<close>

theorem exporter_field_rendering_witness:
  \<open>length [PyInt 12, PyStr ''O'', PyStr ''A"B'', PyNone, PyNone, PyStr ''H'', PyStr ''NY'',
      PyInt 501, PyStr ''S'', PyStr ''NY'', PyStr ''2Q'', PyNone, PyStr ''F'', PyNone, PyInt 7] \<le> length headers \<and>
   render_row [PyInt 12, PyStr ''O'', PyStr ''A"B'', PyNone, PyNone, PyStr ''H'', PyStr ''NY'',
      PyInt 501, PyStr ''S'', PyStr ''NY'', PyStr ''2Q'', PyNone, PyStr ''F'', PyNone, PyInt 7] =
     Inr ''"12","O","A""B","","","H","NY","00501","S","NY","2Q","","F","","7"''\<close>
proof -
  have h: \<open>length [PyInt 12, PyStr ''O'', PyStr ''A"B'', PyNone, PyNone, PyStr ''H'', PyStr ''NY'',
      PyInt 501, PyStr ''S'', PyStr ''NY'', PyStr ''2Q'', PyNone, PyStr ''F'', PyNone, PyInt 7] \<le> length headers\<close>
    by (simp add: headers_def)
  have r: \<open>render_row [PyInt 12, PyStr ''O'', PyStr ''A"B'', PyNone, PyNone, PyStr ''H'', PyStr ''NY'',
      PyInt 501, PyStr ''S'', PyStr ''NY'', PyStr ''2Q'', PyNone, PyStr ''F'', PyNone, PyInt 7] =
     Inr ''"12","O","A""B","","","H","NY","00501","S","NY","2Q","","F","","7"''\<close>
    by (simp add: render_row_def escaped_row_def escape_value_def headers_def zfill_def
        dq_def str_int_def numeral_2_eq_2)
  show ?thesis
    using exporter_field_rendering
      [of \<open>[PyInt 12, PyStr ''O'', PyStr ''A"B'', PyNone, PyNone, PyStr ''H'', PyStr ''NY'',
      PyInt 501, PyStr ''S'', PyStr ''NY'', PyStr ''2Q'', PyNone, PyStr ''F'', PyNone, PyInt 7]\<close>] h r
    apply -
    apply (rule conjI)
     apply assumption+
    done
qed

section \<open>Properties of the pagination loop\<close>


lemma render_rows_ok:
  "\<forall>r \<in> set rs. length r \<le> length headers \<Longrightarrow>
     \<exists>ls. render_rows rs = Inr ls \<and> map Inr ls = map render_row rs"
proof (induction rs)
  case Nil
  show ?case by simp
next
  case (Cons r rs)
  then have "0 + length r \<le> length headers" by simp
  from escape_from_fields [OF this] obtain fs where "escape_from 0 r = Inr fs" by blast
  then have "render_row r = Inr (join '','' fs)"
    by (simp add: render_row_def escaped_row_def)
  moreover from Cons obtain ls where "render_rows rs = Inr ls" "map Inr ls = map render_row rs"
    by auto
  ultimately show ?case by simp
qed

lemma export_loop_run:
  assumes "\<forall>j<k. fetch p (off + j * p) = Inr (pg j) \<and> pg j \<noteq> [] \<and> \<not> length (pg j) < p"
    and "fetch p (off + k * p) = Inr (pg k)"
    and "pg k = [] \<or> length (pg k) < p"
    and "\<forall>j\<le>k. \<forall>r \<in> set (pg j). length r \<le> length headers"
    and "chunk_start s = off"
    and "k < fuel"
  shows "\<exists>s'. export_loop fuel fetch p s = Some (Inr s') \<and>
           calls s' = calls s @ map (\<lambda>j. (p, off + j * p)) [0..<Suc k] \<and>
           map Inr (csv_content s') =
             map Inr (csv_content s) @ map render_row (concat (map pg [0..<Suc k])) \<and>
           processed_count s' = processed_count s + length (concat (map pg [0..<Suc k]))"
  using assms
proof (induction k arbitrary: fuel s off pg)
  case 0
  from "0.prems"(6) obtain f where fuel: "fuel = Suc f" by (cases fuel) auto
  from "0.prems"(4) have "\<forall>r \<in> set (pg 0). length r \<le> length headers" by blast
  from render_rows_ok [OF this] obtain ls where ls: "render_rows (pg 0) = Inr ls"
    "map Inr ls = map render_row (pg 0)" by blast
  from ls(2) have len: "length ls = length (pg 0)" by (metis length_map)
  show ?case
  proof (cases "pg 0 = []")
    case True
    with "0.prems"(2,5) fuel show ?thesis by (simp add: Let_def)
  next
    case False
    with "0.prems"(3) have "length (pg 0) < p" by simp
    with False "0.prems"(2,5) fuel ls show ?thesis by (simp add: Let_def)
  qed
next
  case (Suc k)
  from Suc.prems(6) obtain f where fuel: "fuel = Suc f" and f: "k < f" by (cases fuel) auto
  from Suc.prems(1) have p0: "fetch p off = Inr (pg 0)" "pg 0 \<noteq> []" "\<not> length (pg 0) < p"
    by auto
  from Suc.prems(4) have "\<forall>r \<in> set (pg 0). length r \<le> length headers" by blast
  from render_rows_ok [OF this] obtain ls where ls: "render_rows (pg 0) = Inr ls"
    "map Inr ls = map render_row (pg 0)" by blast
  from ls(2) have len: "length ls = length (pg 0)" by (metis length_map)
  define s2 where "s2 = s\<lparr>calls := calls s @ [(p, off)],
     csv_content := csv_content s @ ls,
     processed_count := processed_count s + length (pg 0),
     chunk_start := off + p\<rparr>"
  have step: "export_loop fuel fetch p s = export_loop f fetch p s2"
    using fuel p0 ls(1) Suc.prems(5) by (simp add: Let_def s2_def)
  have a1: "\<forall>j<k. fetch p ((off + p) + j * p) = Inr (pg (Suc j)) \<and> pg (Suc j) \<noteq> [] \<and>
      \<not> length (pg (Suc j)) < p"
    using Suc.prems(1) by (auto simp: add.assoc)
  have a2: "fetch p ((off + p) + k * p) = Inr (pg (Suc k))"
    using Suc.prems(2) by (simp add: add.assoc)
  have a3: "pg (Suc k) = [] \<or> length (pg (Suc k)) < p" using Suc.prems(3) .
  have a4: "\<forall>j\<le>k. \<forall>r \<in> set (pg (Suc j)). length r \<le> length headers"
    using Suc.prems(4) by auto
  have a5: "chunk_start s2 = off + p" by (simp add: s2_def)
  from Suc.IH [OF a1 a2 a3 a4 a5 f]
  obtain s' where s': "export_loop f fetch p s2 = Some (Inr s')"
    "calls s' = calls s2 @ map (\<lambda>j. (p, (off + p) + j * p)) [0..<Suc k]"
    "map Inr (csv_content s') =
       map Inr (csv_content s2) @ map render_row (concat (map (\<lambda>j. pg (Suc j)) [0..<Suc k]))"
    "processed_count s' = processed_count s2 + length (concat (map (\<lambda>j. pg (Suc j)) [0..<Suc k]))"
    by blast
  have m: "\<And>g::nat \<Rightarrow> 'z. map g [0..<Suc (Suc k)] = g 0 # map (\<lambda>j. g (Suc j)) [0..<Suc k]"
    by (simp only: map_upt_Suc)
  have "calls s' = calls s @ map (\<lambda>j. (p, off + j * p)) [0..<Suc (Suc k)]"
    unfolding m using s'(2) by (simp add: s2_def add.assoc)
  moreover have "map Inr (csv_content s') =
      map Inr (csv_content s) @ map render_row (concat (map pg [0..<Suc (Suc k)]))"
    unfolding m using s'(3) ls(2) by (simp add: s2_def)
  moreover have "processed_count s' = processed_count s + length (concat (map pg [0..<Suc (Suc k)]))"
    unfolding m using s'(4) by (simp add: s2_def)
  ultimately show ?case using step s'(1) by simp
qed


lemma five_rows_page_two:
  assumes v: "length view = 5" and r: "\<forall>r \<in> set view. length r \<le> length headers"
    and fuel: "3 \<le> fuel"
  shows "\<exists>s. export_loop fuel (get_export_chunk view) 2 export_init = Some (Inr s) \<and>
           calls s = [(2, 0), (2, 2), (2, 4)] \<and>
           map (\<lambda>(l, off). length (take l (drop off view))) (calls s) = [2, 2, 1] \<and>
           map Inr (csv_content s) = Inr header_line # map render_row view \<and>
           processed_count s = 5"
proof -
  define pg where "pg = (\<lambda>j. take 2 (drop (j * 2) view))"
  have h1: "\<forall>j<2. get_export_chunk view 2 (0 + j * 2) = Inr (pg j) \<and> pg j \<noteq> [] \<and>
       \<not> length (pg j) < 2"
    using v by (auto simp: get_export_chunk_def pg_def)
  have h2: "get_export_chunk view 2 (0 + 2 * 2) = Inr (pg 2)"
    by (simp add: get_export_chunk_def pg_def)
  have h3: "pg 2 = [] \<or> length (pg 2) < 2"
    using v by (simp add: pg_def)
  have h4: "\<forall>j\<le>2. \<forall>r \<in> set (pg j). length r \<le> length headers"
    using r by (auto simp: pg_def dest: in_set_takeD in_set_dropD)
  have h5: "chunk_start export_init = 0" by (simp add: export_init_def)
  have h6: "2 < fuel" using fuel by simp
  from export_loop_run [where fetch = "get_export_chunk view" and p = 2 and off = 0
      and pg = pg and k = 2 and s = export_init and fuel = fuel, OF h1 h2 h3 h4 h5 h6]
  obtain s where s:
    "export_loop fuel (get_export_chunk view) 2 export_init = Some (Inr s)"
    "calls s = calls export_init @ map (\<lambda>j. (2, 0 + j * 2)) [0..<Suc 2]"
    "map Inr (csv_content s) =
       map Inr (csv_content export_init) @ map render_row (concat (map pg [0..<Suc 2]))"
    "processed_count s = processed_count export_init + length (concat (map pg [0..<Suc 2]))"
    by blast
  have upt3: "[0..<Suc 2] = [0, 1, 2]" by (simp add: upt_rec numeral_2_eq_2)
  have d4: "drop 4 view = drop 2 (drop 2 view)" by simp
  have "take 2 view @ take 2 (drop 2 view) @ drop 4 view = view"
    unfolding d4 by (simp only: append_take_drop_id)
  then have cat: "concat (map pg [0..<Suc 2]) = view"
    unfolding upt3 using v by (simp add: pg_def)
  have c: "calls s = [(2, 0), (2, 2), (2, 4)]"
    using s(2) unfolding upt3 by (simp add: export_init_def)
  have "map (\<lambda>(l, off). length (take l (drop off view))) (calls s) = [2, 2, 1]"
    unfolding c using v by simp
  with s(1) c s(3) s(4) cat v show ?thesis by (simp add: export_init_def)
qed


text \<open>
  Claim C8. Let call number \<open>k\<close> (counting from 0) be the first call of the paginated read
  function that returns no row or fewer rows than the page size, every earlier call
  returning a full page. Then the exporter calls the function exactly at the offsets
  \<open>0, page_size, \<dots>, k * page_size\<close> and returns; the lines after the header are the
  renderings of the rows of the pages \<open>0, \<dots>, k\<close> in order, each row once, the final
  partial page included. Over a view of 5 rows with page size 2 the calls are at offsets
  0, 2 and 4, the pages have 2, 2 and 1 rows, and there is no fourth call.
\<close>

theorem exporter_pagination:
  "((\<forall>j<k. fetch p (j * p) = Inr (pg j) \<and> pg j \<noteq> [] \<and> \<not> length (pg j) < p) \<and>
    fetch p (k * p) = Inr (pg k) \<and> (pg k = [] \<or> length (pg k) < p) \<and>
    (\<forall>j\<le>k. \<forall>r \<in> set (pg j). length r \<le> length headers) \<and> k < fuel \<longrightarrow>
      (\<exists>s. export_loop fuel fetch p export_init = Some (Inr s) \<and>
           calls s = map (\<lambda>j. (p, j * p)) [0..<Suc k] \<and>
           map Inr (csv_content s) =
             Inr header_line # map render_row (concat (map pg [0..<Suc k])) \<and>
           processed_count s = length (concat (map pg [0..<Suc k])))) \<and>
   (length view = 5 \<and> (\<forall>r \<in> set view. length r \<le> length headers) \<and> 3 \<le> fuel' \<longrightarrow>
      (\<exists>s. export_loop fuel' (get_export_chunk view) 2 export_init = Some (Inr s) \<and>
           calls s = [(2, 0), (2, 2), (2, 4)] \<and>
           map (\<lambda>(l, off). length (take l (drop off view))) (calls s) = [2, 2, 1] \<and>
           map Inr (csv_content s) = Inr header_line # map render_row view \<and>
           processed_count s = 5))"
proof (intro conjI impI)
  assume a: "(\<forall>j<k. fetch p (j * p) = Inr (pg j) \<and> pg j \<noteq> [] \<and> \<not> length (pg j) < p) \<and>
    fetch p (k * p) = Inr (pg k) \<and> (pg k = [] \<or> length (pg k) < p) \<and>
    (\<forall>j\<le>k. \<forall>r \<in> set (pg j). length r \<le> length headers) \<and> k < fuel"
  then have h1: "\<forall>j<k. fetch p (0 + j * p) = Inr (pg j) \<and> pg j \<noteq> [] \<and> \<not> length (pg j) < p"
    and h2: "fetch p (0 + k * p) = Inr (pg k)"
    and h3: "pg k = [] \<or> length (pg k) < p"
    and h4: "\<forall>j\<le>k. \<forall>r \<in> set (pg j). length r \<le> length headers"
    and h6: "k < fuel"
    by simp_all
  have h5: "chunk_start export_init = 0" by (simp add: export_init_def)
  from export_loop_run [where fetch = fetch and p = p and off = 0 and pg = pg and k = k
      and s = export_init and fuel = fuel, OF h1 h2 h3 h4 h5 h6]
  show "\<exists>s. export_loop fuel fetch p export_init = Some (Inr s) \<and>
           calls s = map (\<lambda>j. (p, j * p)) [0..<Suc k] \<and>
           map Inr (csv_content s) =
             Inr header_line # map render_row (concat (map pg [0..<Suc k])) \<and>
           processed_count s = length (concat (map pg [0..<Suc k]))"
    by (simp add: export_init_def)
next
  assume "length view = 5 \<and> (\<forall>r \<in> set view. length r \<le> length headers) \<and> 3 \<le> fuel'"
  then show "\<exists>s. export_loop fuel' (get_export_chunk view) 2 export_init = Some (Inr s) \<and>
           calls s = [(2, 0), (2, 2), (2, 4)] \<and>
           map (\<lambda>(l, off). length (take l (drop off view))) (calls s) = [2, 2, 1] \<and>
           map Inr (csv_content s) = Inr header_line # map render_row view \<and>
           processed_count s = 5"
    using five_rows_page_two [of view fuel'] by blast
qed


text \<open>
  Both parts of the theorem at a view of five one-column rows, page size 2 and three
  units of fuel: the third call, at offset 4, is the first to return a short page.
\<close>

theorem exporter_pagination_witness:
  "(\<exists>s. export_loop 3 (get_export_chunk [[PyInt 1], [PyInt 2], [PyInt 3], [PyInt 4], [PyInt 5]])
           2 export_init = Some (Inr s) \<and>
        calls s = map (\<lambda>j. (2, j * 2)) [0..<Suc 2] \<and>
        map Inr (csv_content s) =
          Inr header_line #
          map render_row (concat (map (\<lambda>j. take 2 (drop (j * 2) [[PyInt 1], [PyInt 2], [PyInt 3], [PyInt 4], [PyInt 5]])) [0..<Suc 2])) \<and>
        processed_count s =
          length (concat (map (\<lambda>j. take 2 (drop (j * 2) [[PyInt 1], [PyInt 2], [PyInt 3], [PyInt 4], [PyInt 5]])) [0..<Suc 2]))) \<and>
   (\<exists>s. export_loop 3 (get_export_chunk [[PyInt 1], [PyInt 2], [PyInt 3], [PyInt 4], [PyInt 5]])
           2 export_init = Some (Inr s) \<and>
        calls s = [(2, 0), (2, 2), (2, 4)] \<and>
        map (\<lambda>(l, off). length (take l (drop off [[PyInt 1], [PyInt 2], [PyInt 3], [PyInt 4], [PyInt 5]])))
          (calls s) = [2, 2, 1] \<and>
        map Inr (csv_content s) =
          Inr header_line #
          map render_row [[PyInt 1], [PyInt 2], [PyInt 3], [PyInt 4], [PyInt 5]] \<and>
        processed_count s = 5)"
proof -
  have h1: "(\<forall>j<2. get_export_chunk [[PyInt 1], [PyInt 2], [PyInt 3], [PyInt 4], [PyInt 5]] 2 (j * 2) =
            Inr (take 2 (drop (j * 2) [[PyInt 1], [PyInt 2], [PyInt 3], [PyInt 4], [PyInt 5]])) \<and>
          take 2 (drop (j * 2) [[PyInt 1], [PyInt 2], [PyInt 3], [PyInt 4], [PyInt 5]]) \<noteq> [] \<and>
          \<not> length (take 2 (drop (j * 2) [[PyInt 1], [PyInt 2], [PyInt 3], [PyInt 4], [PyInt 5]])) < 2) \<and>
    get_export_chunk [[PyInt 1], [PyInt 2], [PyInt 3], [PyInt 4], [PyInt 5]] 2 (2 * 2) =
      Inr (take 2 (drop (2 * 2) [[PyInt 1], [PyInt 2], [PyInt 3], [PyInt 4], [PyInt 5]])) \<and>
    (take 2 (drop (2 * 2) [[PyInt 1], [PyInt 2], [PyInt 3], [PyInt 4], [PyInt 5]]) = [] \<or>
     length (take 2 (drop (2 * 2) [[PyInt 1], [PyInt 2], [PyInt 3], [PyInt 4], [PyInt 5]])) < 2) \<and>
    (\<forall>j\<le>2. \<forall>r \<in> set (take 2 (drop (j * 2) [[PyInt 1], [PyInt 2], [PyInt 3], [PyInt 4], [PyInt 5]])).
       length r \<le> length headers) \<and> (2::nat) < 3"
    by (auto simp: get_export_chunk_def headers_def less_Suc_eq le_Suc_eq numeral_2_eq_2)
  have h2: "length [[PyInt 1], [PyInt 2], [PyInt 3], [PyInt 4], [PyInt 5]] = 5 \<and>
    (\<forall>r \<in> set [[PyInt 1], [PyInt 2], [PyInt 3], [PyInt 4], [PyInt 5]].
       length r \<le> length headers) \<and> (3::nat) \<le> 3"
    by (simp add: headers_def)
  note t1 = exporter_pagination
    [where fetch = "get_export_chunk [[PyInt 1], [PyInt 2], [PyInt 3], [PyInt 4], [PyInt 5]]"
       and p = 2 and k = 2 and fuel = 3
       and pg = "\<lambda>j. take 2 (drop (j * 2) [[PyInt 1], [PyInt 2], [PyInt 3], [PyInt 4], [PyInt 5]])",
     THEN conjunct1]
  note t2 = exporter_pagination
    [where view = "[[PyInt 1], [PyInt 2], [PyInt 3], [PyInt 4], [PyInt 5]]" and fuel' = 3, THEN conjunct2]
  from t1 h1 have c1: "\<exists>s. export_loop 3 (get_export_chunk [[PyInt 1], [PyInt 2], [PyInt 3], [PyInt 4], [PyInt 5]])
           2 export_init = Some (Inr s) \<and>
        calls s = map (\<lambda>j. (2, j * 2)) [0..<Suc 2] \<and>
        map Inr (csv_content s) =
          Inr header_line #
          map render_row (concat (map (\<lambda>j. take 2 (drop (j * 2) [[PyInt 1], [PyInt 2], [PyInt 3], [PyInt 4], [PyInt 5]])) [0..<Suc 2])) \<and>
        processed_count s =
          length (concat (map (\<lambda>j. take 2 (drop (j * 2) [[PyInt 1], [PyInt 2], [PyInt 3], [PyInt 4], [PyInt 5]])) [0..<Suc 2]))"
    by (rule mp)
  from t2 h2 have c2: "\<exists>s. export_loop 3 (get_export_chunk [[PyInt 1], [PyInt 2], [PyInt 3], [PyInt 4], [PyInt 5]])
           2 export_init = Some (Inr s) \<and>
        calls s = [(2, 0), (2, 2), (2, 4)] \<and>
        map (\<lambda>(l, off). length (take l (drop off [[PyInt 1], [PyInt 2], [PyInt 3], [PyInt 4], [PyInt 5]])))
          (calls s) = [2, 2, 1] \<and>
        map Inr (csv_content s) =
          Inr header_line #
          map render_row [[PyInt 1], [PyInt 2], [PyInt 3], [PyInt 4], [PyInt 5]] \<and>
        processed_count s = 5"
    by (rule mp)
  from c1 c2 show ?thesis by (rule conjI)
qed

section \<open>Properties of the Chunked Loader\<close>


lemma copied_append: "copied (xs @ ys) = copied xs @ copied ys"
  by (induction xs rule: copied.induct) auto

lemma collected_append: "collected (xs @ ys) = collected xs @ collected ys"
  by (induction xs rule: collected.induct) auto

lemma truncated_append: "truncated (xs @ ys) = truncated xs @ truncated ys"
  by (induction xs rule: truncated.induct) auto

lemma insert_chunk_ok:
  assumes "\<forall>st. \<not> fails k st"
  shows "insert_chunk fails k target_table b d =
     (None, \<lparr>committed = (working d)(target_table :=
                 (if k = 1 then [] else working d target_table) @ rows b),
             working = (working d)(target_table :=
                 (if k = 1 then [] else working d target_table) @ rows b),
             trace = trace d @ (if k = 1 then [Truncate target_table] else []) @
                 [CopyFrom target_table (columns b) (rows b), Commit]\<rparr>)"
proof -
  from assms have f: "\<not> fails k StTruncate" "\<not> fails k StCopy" "\<not> fails k StCommit"
    by simp_all
  then show ?thesis
    by (cases "k = 1")
       (simp_all add: insert_chunk_def execute_truncate_def copy_from_def commit_def
          log_event_def Let_def)
qed

lemma collect_slice_rows:
  "collect lazy_df = Inr t \<Longrightarrow>
     collect_slice lazy_df (j * c) c = Inr (t\<lparr>rows := window c (rows t) j\<rparr>)"
  by (simp add: collect_slice_def window_def)

lemma load_loop_full_chunk:
  assumes t: "collect lazy_df = Inr t"
    and cc: "chunk_count s = j" and tot: "total_rows_processed s = j * c"
    and w: "window c (rows t) j \<noteq> []"
    and cap: "\<not> (Suc j = 6 \<and> target_table = ''nppes_providers'')"
    and ok: "\<forall>st. \<not> fails (Suc j) st"
    and s': "s' = \<lparr>chunk_count = Suc j,
               total_rows_processed = j * c + length (window c (rows t) j),
               conn = \<lparr>committed = (working (conn s))(target_table :=
                          (if j = 0 then [] else working (conn s) target_table) @
                          window c (rows t) j),
                       working = (working (conn s))(target_table :=
                          (if j = 0 then [] else working (conn s) target_table) @
                          window c (rows t) j),
                       trace = trace (conn s) @
                          chunk_events target_table (columns t) c (rows t) j\<rparr>\<rparr>"
  shows "load_loop fails lazy_df target_table c s =
           (if length (window c (rows t) j) < c then (None, s')
            else load_loop fails lazy_df target_table c s')"
proof -
  have ins: "insert_chunk fails (Suc j) target_table (t\<lparr>rows := window c (rows t) j\<rparr>)
       (log_event (Collect (j * c) c (length (window c (rows t) j))) (conn s)) =
     (None, conn s')"
    unfolding insert_chunk_ok [of fails "Suc j", OF ok] s'
    by (simp add: log_event_def chunk_events_def)
  have s'c: "s\<lparr>chunk_count := Suc j,
       conn := conn s',
       total_rows_processed := j * c + length (window c (rows t) j)\<rparr> = s'"
    by (simp add: s')
  show ?thesis
    apply (subst load_loop.simps)
    using w cap
    apply (auto simp: Let_def cc tot collect_slice_rows [OF t] ins s'c)
    done
qed


lemma load_loop_run_full:
  assumes t: "collect lazy_df = Inr t" and c: "0 < c"
    and full: "m * c \<le> length (rows t)"
    and ok: "\<forall>k. 1 \<le> k \<and> k \<le> m \<longrightarrow> (\<forall>st. \<not> fails k st)"
    and cap: "target_table \<noteq> ''nppes_providers'' \<or> m \<le> 5"
  shows "load_loop fails lazy_df target_table c (after_chunks target_table t c d 0) =
         load_loop fails lazy_df target_table c (after_chunks target_table t c d m)"
  using full ok cap
proof (induction m)
  case 0
  show ?case by simp
next
  case (Suc m)
  let ?s = "after_chunks target_table t c d m"
  from Suc.prems have mc: "m * c + c \<le> length (rows t)" by simp
  then have full': "m * c \<le> length (rows t)" by simp
  from Suc.prems have IH: "load_loop fails lazy_df target_table c (after_chunks target_table t c d 0) =
         load_loop fails lazy_df target_table c ?s"
    using Suc.IH [OF full'] by auto
  have wlen: "length (window c (rows t) m) = c"
    using mc by (simp add: window_def)
  with c have w: "window c (rows t) m \<noteq> []" by auto
  have cap': "\<not> (Suc m = 6 \<and> target_table = ''nppes_providers'')"
    using Suc.prems(3) by auto
  have ok': "\<forall>st. \<not> fails (Suc m) st" using Suc.prems(2) by auto
  have "take (m * c + c) (rows t) = take (m * c) (rows t) @ window c (rows t) m"
    unfolding window_def by (rule take_add)
  then have tk: "take (m * c) (rows t) @ window c (rows t) m = take (c + m * c) (rows t)"
    by (simp only: add.commute)
  have s': "after_chunks target_table t c d (Suc m) =
      \<lparr>chunk_count = Suc m,
       total_rows_processed = m * c + length (window c (rows t) m),
       conn = \<lparr>committed = (working (conn ?s))(target_table :=
                  (if m = 0 then [] else working (conn ?s) target_table) @
                  window c (rows t) m),
               working = (working (conn ?s))(target_table :=
                  (if m = 0 then [] else working (conn ?s) target_table) @
                  window c (rows t) m),
               trace = trace (conn ?s) @
                  chunk_events target_table (columns t) c (rows t) m\<rparr>\<rparr>"
    using mc wlen tk by (simp add: after_chunks_def window_def)
  have "load_loop fails lazy_df target_table c ?s =
      load_loop fails lazy_df target_table c (after_chunks target_table t c d (Suc m))"
    using load_loop_full_chunk [where s = ?s and j = m and c = c and fails = fails
        and target_table = target_table, OF t _ _ w cap' ok' s'] full' wlen
    by (simp add: after_chunks_def)
  with IH show ?case by simp
qed


lemma load_loop_break:
  assumes t: "collect lazy_df = Inr t"
    and cc: "chunk_count s = j" and tot: "total_rows_processed s = j * c"
    and stop: "window c (rows t) j = [] \<or> (Suc j = 6 \<and> target_table = ''nppes_providers'')"
  shows "load_loop fails lazy_df target_table c s =
           (None, s\<lparr>chunk_count := Suc j,
                     conn := log_event (Collect (j * c) c (length (window c (rows t) j)))
                               (conn s)\<rparr>)"
  apply (subst load_loop.simps)
  using stop
  apply (auto simp: Let_def cc tot collect_slice_rows [OF t])
  done

lemma load_loop_copy_fails:
  assumes t: "collect lazy_df = Inr t"
    and cc: "chunk_count s = j" and tot: "total_rows_processed s = j * c"
    and w: "window c (rows t) j \<noteq> []"
    and cap: "\<not> (Suc j = 6 \<and> target_table = ''nppes_providers'')"
    and tr: "j = 0 \<longrightarrow> \<not> fails 1 StTruncate"
    and cp: "fails (Suc j) StCopy"
  shows "load_loop fails lazy_df target_table c s =
           (Some DatabaseError,
            s\<lparr>chunk_count := Suc j,
              conn := \<lparr>committed = committed (conn s),
                       working = committed (conn s),
                       trace = trace (conn s) @
                         Collect (j * c) c (length (window c (rows t) j)) #
                         (if j = 0 then [Truncate target_table] else []) @
                         [CopyFrom target_table (columns t) (window c (rows t) j),
                          Rollback]\<rparr>\<rparr>)"
proof -
  have ins: "insert_chunk fails (Suc j) target_table (t\<lparr>rows := window c (rows t) j\<rparr>)
       (log_event (Collect (j * c) c (length (window c (rows t) j))) (conn s)) =
     (Some DatabaseError,
      \<lparr>committed = committed (conn s),
       working = committed (conn s),
       trace = trace (conn s) @
         Collect (j * c) c (length (window c (rows t) j)) #
         (if j = 0 then [Truncate target_table] else []) @
         [CopyFrom target_table (columns t) (window c (rows t) j), Rollback]\<rparr>)"
    using tr cp
    by (cases "j = 0")
       (simp_all add: insert_chunk_def execute_truncate_def copy_from_def rollback_def
          log_event_def Let_def)
  show ?thesis
    apply (subst load_loop.simps)
    using w cap
    apply (auto simp: Let_def cc tot collect_slice_rows [OF t] ins)
    done
qed

lemma copied_chunks:
  "copied (concat (map (chunk_events target_table cols c rs) [0..<k])) =
     map (window c rs) [0..<k]"
  by (induction k) (auto simp: copied_append chunk_events_def)

lemma collected_chunks:
  "collected (concat (map (chunk_events target_table cols c rs) [0..<k])) =
     map (\<lambda>j. (j * c, c)) [0..<k]"
  by (induction k) (auto simp: collected_append chunk_events_def)

lemma truncated_chunks:
  "truncated (concat (map (chunk_events target_table cols c rs) [0..<k])) =
     (if k = 0 then [] else [target_table])"
  by (induction k) (auto simp: truncated_append chunk_events_def)

lemma concat_windows: "concat (map (window c rs) [0..<k]) = take (k * c) rs"
proof (induction k)
  case 0
  show ?case by simp
next
  case (Suc k)
  have "take (k * c + c) rs = take (k * c) rs @ window c rs k"
    unfolding window_def by (rule take_add)
  with Suc show ?case by (simp add: add.commute)
qed


lemma ceil_div_eq: "0 < c \<Longrightarrow> ceil_div n c = n div c + (if n mod c = 0 then 0 else 1)"
proof -
  assume c: "0 < c"
  define q where "q = n div c"
  define r where "r = n mod c"
  have n: "n = r + q * c" by (simp add: q_def r_def)
  have r: "r < c" using c by (simp add: r_def)
  have qd: "n div c = q" and rm: "n mod c = r" by (simp_all add: q_def r_def)
  show ?thesis
  proof (cases "r = 0")
    case True
    have e: "n + c - 1 = (c - 1) + q * c" using c n True by simp
    have "((c - 1) + q * c) div c = q + (c - 1) div c"
      by (rule div_mult_self1) (use c in simp)
    moreover have "(c - 1) div c = 0" using c by simp
    ultimately have "(n + c - 1) div c = q" using e by simp
    with True show ?thesis by (simp add: ceil_div_def qd rm)
  next
    case False
    have e: "n + c - 1 = (r - 1) + Suc q * c" using n False by simp
    have "((r - 1) + Suc q * c) div c = Suc q + (r - 1) div c"
      by (rule div_mult_self1) (use c in simp)
    moreover have "(r - 1) div c = 0" using r by simp
    ultimately have "(n + c - 1) div c = Suc q" using e by simp
    with False show ?thesis by (simp add: ceil_div_def qd rm)
  qed
qed


lemma after_chunks_Suc:
  assumes full: "m * c \<le> length (rows t)"
  shows "after_chunks target_table t c d (Suc m) =
      \<lparr>chunk_count = Suc m,
       total_rows_processed = m * c + length (window c (rows t) m),
       conn = \<lparr>committed = (working (conn (after_chunks target_table t c d m)))(target_table :=
                  (if m = 0 then []
                   else working (conn (after_chunks target_table t c d m)) target_table) @
                  window c (rows t) m),
               working = (working (conn (after_chunks target_table t c d m)))(target_table :=
                  (if m = 0 then []
                   else working (conn (after_chunks target_table t c d m)) target_table) @
                  window c (rows t) m),
               trace = trace (conn (after_chunks target_table t c d m)) @
                  chunk_events target_table (columns t) c (rows t) m\<rparr>\<rparr>"
proof -
  have "take (m * c + c) (rows t) = take (m * c) (rows t) @ window c (rows t) m"
    unfolding window_def by (rule take_add)
  then have tk: "take (m * c) (rows t) @ window c (rows t) m = take (c + m * c) (rows t)"
    by (simp only: add.commute)
  have "min (c + m * c) (length (rows t)) = m * c + min (length (rows t) - m * c) c"
    using full by simp
  then show ?thesis
    using tk by (simp add: after_chunks_def window_def)
qed

lemma load_no_faults:
  assumes t: "collect lazy_df = Inr t" and c: "0 < c" and ok: "\<forall>k st. \<not> fails k st"
  shows "load_chunked_blob_data_to_postgres True fails lazy_df target_table c d =
     (None,
      \<lparr>committed =
         (if loaded_chunks target_table (length (rows t)) c = 0 then committed d
          else (committed d)(target_table :=
                 take (loaded_chunks target_table (length (rows t)) c * c) (rows t))),
       working =
         (if loaded_chunks target_table (length (rows t)) c = 0 then committed d
          else (committed d)(target_table :=
                 take (loaded_chunks target_table (length (rows t)) c * c) (rows t))),
       trace = trace d @
         concat (map (chunk_events target_table (columns t) c (rows t))
                   [0..<loaded_chunks target_table (length (rows t)) c]) @
         (if length (rows t) mod c \<noteq> 0 \<and>
             loaded_chunks target_table (length (rows t)) c = Suc (length (rows t) div c)
          then []
          else [Collect (loaded_chunks target_table (length (rows t)) c * c) c
                  (length (window c (rows t)
                     (loaded_chunks target_table (length (rows t)) c)))]) @
         [Close]\<rparr>)"
proof -
  define n where "n = length (rows t)"
  define M where "M = loaded_chunks target_table n c"
  define m where "m = (if target_table = ''nppes_providers'' then min 5 (n div c) else n div c)"
  define d0 where "d0 = connect d"
  let ?A = "after_chunks target_table t c d0"
  have cd: "ceil_div n c = n div c + (if n mod c = 0 then 0 else 1)"
    by (rule ceil_div_eq [OF c])
  have "m * c \<le> n div c * c" by (simp add: m_def)
  also have "\<dots> \<le> n" by simp
  finally have full: "m * c \<le> length (rows t)" by (simp add: n_def)
  have ok': "\<forall>k. 1 \<le> k \<and> k \<le> m \<longrightarrow> (\<forall>st. \<not> fails k st)" using ok by simp
  have cap: "target_table \<noteq> ''nppes_providers'' \<or> m \<le> 5" by (simp add: m_def)
  have s0: "\<lparr>chunk_count = 0, total_rows_processed = 0, conn = d0\<rparr> = ?A 0"
    by (simp add: after_chunks_def)
  have run: "load_loop fails lazy_df target_table c (?A 0) =
      load_loop fails lazy_df target_table c (?A m)"
    by (rule load_loop_run_full [OF t c full ok' cap])
  have cc: "chunk_count (?A m) = m" by (simp add: after_chunks_def)
  have tot: "total_rows_processed (?A m) = m * c"
    using full by (simp add: after_chunks_def)
  have okm: "\<forall>st. \<not> fails (Suc m) st" using ok by simp
  consider (capped) "target_table = ''nppes_providers''" "5 \<le> n div c"
    | (exact) "\<not> (target_table = ''nppes_providers'' \<and> 5 \<le> n div c)" "n mod c = 0"
    | (short) "\<not> (target_table = ''nppes_providers'' \<and> 5 \<le> n div c)" "n mod c \<noteq> 0"
    by blast
  then have "load_loop fails lazy_df target_table c (?A 0) =
      (None,
       (if n mod c \<noteq> 0 \<and> M = Suc (n div c) then ?A M
        else (?A M)\<lparr>chunk_count := Suc M,
               conn := log_event (Collect (M * c) c (length (window c (rows t) M)))
                         (conn (?A M))\<rparr>))"
  proof cases
    case capped
    then have m5: "m = 5" and M5: "M = 5"
      by (simp_all add: m_def M_def loaded_chunks_def cd)
    have "load_loop fails lazy_df target_table c (?A m) =
        (None, (?A m)\<lparr>chunk_count := Suc m,
                 conn := log_event (Collect (m * c) c (length (window c (rows t) m)))
                           (conn (?A m))\<rparr>)"
      by (rule load_loop_break [OF t cc tot]) (simp add: m5 capped)
    with run capped show ?thesis by (simp add: m5 M5)
  next
    case exact
    then have mM: "m = n div c" "M = n div c"
      by (auto simp: m_def M_def loaded_chunks_def cd)
    have "m * c = n" using exact(2) mM(1) by (simp add: mod_eq_0_iff_dvd)
    then have w: "window c (rows t) m = []" by (simp add: window_def n_def)
    have "load_loop fails lazy_df target_table c (?A m) =
        (None, (?A m)\<lparr>chunk_count := Suc m,
                 conn := log_event (Collect (m * c) c (length (window c (rows t) m)))
                           (conn (?A m))\<rparr>)"
      by (rule load_loop_break [OF t cc tot]) (simp add: w)
    with run exact show ?thesis by (simp add: mM)
  next
    case short
    then have mM: "m = n div c" "M = Suc (n div c)"
      by (auto simp: m_def M_def loaded_chunks_def cd)
    have lt: "m * c < n"
      using short(2) mM(1) by (metis mod_eq_0_iff_dvd dvd_triv_right full le_neq_implies_less n_def)
    have "n - m * c = n mod c" using mM(1) by (simp add: minus_div_mult_eq_mod)
    then have wl: "length (window c (rows t) m) = n mod c"
      using c by (simp add: window_def n_def)
    then have w: "window c (rows t) m \<noteq> []" using short(2) by auto
    have capm: "\<not> (Suc m = 6 \<and> target_table = ''nppes_providers'')"
      using short(1) mM(1) by auto
    have "load_loop fails lazy_df target_table c (?A m) = (None, ?A (Suc m))"
      using load_loop_full_chunk [where s' = "?A (Suc m)" and fails = fails,
          OF t cc tot w capm okm after_chunks_Suc [OF full, of target_table d0]] wl c
      by simp
    with run short show ?thesis by (simp add: mM)
  qed
  then show ?thesis
    unfolding load_chunked_blob_data_to_postgres_def s0 [symmetric]
    by (simp add: s0 M_def [symmetric] n_def [symmetric] d0_def [symmetric])
      (auto simp: after_chunks_def close_def log_event_def d0_def connect_def M_def n_def)
qed


lemma window_length: "length (window c rs j) = min c (length rs - j * c)"
  by (simp add: window_def min.commute)

lemma window_full:
  assumes "0 < c" "Suc j < ceil_div (length rs) c"
  shows "length (window c rs j) = c"
proof -
  from assms have "Suc j \<le> length rs div c"
    by (simp add: ceil_div_eq split: if_splits)
  then have "Suc j * c \<le> length rs div c * c" by (rule mult_le_mono1)
  also have "\<dots> \<le> length rs" by simp
  finally show ?thesis by (simp add: window_length)
qed

lemma window_last:
  assumes c: "0 < c" and n: "0 < ceil_div (length rs) c"
  shows "length (window c rs (ceil_div (length rs) c - 1)) =
           (if c dvd length rs then c else length rs mod c)"
proof (cases "length rs mod c = 0")
  case True
  then have cd: "ceil_div (length rs) c = length rs div c" using c by (simp add: ceil_div_eq)
  with n obtain q where q: "length rs div c = Suc q" by (cases "length rs div c") auto
  from True have "length rs = length rs div c * c" by (simp add: mod_eq_0_iff_dvd)
  then have "length rs = q * c + c" using q by simp
  then have "length rs - q * c = c" by simp
  with True cd q show ?thesis by (simp add: window_length mod_eq_0_iff_dvd)
next
  case False
  then have cd: "ceil_div (length rs) c = Suc (length rs div c)" using c by (simp add: ceil_div_eq)
  have "length rs - length rs div c * c = length rs mod c"
    by (simp add: minus_div_mult_eq_mod)
  with False cd c show ?thesis by (simp add: window_length mod_eq_0_iff_dvd)
qed

lemma take_all_windows:
  assumes c: "0 < c"
  shows "take (ceil_div (length rs) c * c) rs = rs"
proof -
  have "length rs \<le> ceil_div (length rs) c * c"
  proof (cases "length rs mod c = 0")
    case True
    then show ?thesis using c by (simp add: ceil_div_eq mod_eq_0_iff_dvd)
  next
    case False
    have e: "length rs div c * c + length rs mod c = length rs" by simp
    have "length rs mod c < c" using c by simp
    with e have "length rs \<le> length rs div c * c + c" by linarith
    then show ?thesis using False c by (simp add: ceil_div_eq)
  qed
  then show ?thesis by simp
qed


text \<open>
  Claim C1, as amended. For every lazy dataset that materializes to \<open>n\<close> rows and every
  chunk size \<open>c > 0\<close>, a run of the Chunked Loader on a table other than
  \<open>nppes_providers\<close>, with no store failure, returns normally; it materializes Row Windows
  at the offsets \<open>0, c, \<dots>, (n div c) * c\<close>; it loads exactly \<open>ceil(n / c)\<close> windows,
  which are the windows \<open>0, \<dots>, ceil(n / c) - 1\<close> of the dataset; every non-final loaded
  window has length exactly \<open>c\<close>; the final loaded window is shorter than \<open>c\<close> exactly
  when \<open>c\<close> does not divide \<open>n\<close>, and has length \<open>c\<close> when it does (the loop then ends
  on the next, empty window); the loaded windows together are the dataset, so their
  lengths sum to \<open>n\<close>.
\<close>

theorem chunked_loader_windows:
  assumes t: "collect lazy_df = Inr t" and c: "0 < c"
    and tt: "target_table \<noteq> ''nppes_providers''"
    and ok: "\<forall>k st. \<not> fails k st"
  shows "\<exists>d' evs.
     load_chunked_blob_data_to_postgres True fails lazy_df target_table c d = (None, d') \<and>
     trace d' = trace d @ evs \<and>
     collected evs = map (\<lambda>j. (j * c, c)) [0..<Suc (length (rows t) div c)] \<and>
     copied evs = map (window c (rows t)) [0..<ceil_div (length (rows t)) c] \<and>
     length (copied evs) = ceil_div (length (rows t)) c \<and>
     (\<forall>j. Suc j < ceil_div (length (rows t)) c \<longrightarrow> length (copied evs ! j) = c) \<and>
     (0 < ceil_div (length (rows t)) c \<longrightarrow>
        (length (last (copied evs)) < c \<longleftrightarrow> \<not> c dvd length (rows t)) \<and>
        (c dvd length (rows t) \<longrightarrow> length (last (copied evs)) = c)) \<and>
     concat (copied evs) = rows t \<and>
     sum_list (map length (copied evs)) = length (rows t)"
proof -
  define n where "n = length (rows t)"
  define M where "M = ceil_div n c"
  define evs where "evs =
     concat (map (chunk_events target_table (columns t) c (rows t)) [0..<M]) @
     (if n mod c \<noteq> 0 \<and> M = Suc (n div c) then []
      else [Collect (M * c) c (length (window c (rows t) M))]) @ [Close]"
  have lc: "loaded_chunks target_table (length (rows t)) c = M"
    using tt by (simp add: loaded_chunks_def M_def n_def)
  have cd: "M = n div c + (if n mod c = 0 then 0 else 1)"
    unfolding M_def by (rule ceil_div_eq [OF c])
  note run = load_no_faults [OF t c ok, of target_table d, unfolded lc]
  have cop: "copied evs = map (window c (rows t)) [0..<M]"
    by (simp add: evs_def copied_append copied_chunks)
  have col: "collected evs = map (\<lambda>j. (j * c, c)) [0..<Suc (n div c)]"
    using cd by (auto simp: evs_def collected_append collected_chunks)
  have len: "length (copied evs) = M" by (simp add: cop)
  have full: "\<forall>j. Suc j < M \<longrightarrow> length (copied evs ! j) = c"
  proof (intro allI impI)
    fix j assume j: "Suc j < M"
    then have "length (window c (rows t) j) = c"
      using window_full [OF c, of j "rows t"] by (simp add: M_def n_def)
    with j show "length (copied evs ! j) = c" by (simp add: cop)
  qed
  have lastw: "length (last (copied evs)) = (if c dvd n then c else n mod c)" if "0 < M"
  proof -
    from that have "last (copied evs) = window c (rows t) (M - 1)"
      by (simp add: cop last_map)
    then show ?thesis
      using window_last [OF c, of "rows t"] that by (simp add: M_def n_def)
  qed
  have fin: "0 < M \<longrightarrow>
        (length (last (copied evs)) < c \<longleftrightarrow> \<not> c dvd n) \<and>
        (c dvd n \<longrightarrow> length (last (copied evs)) = c)"
    using lastw c by (auto simp: mod_eq_0_iff_dvd)
  have cat: "concat (copied evs) = rows t"
    using take_all_windows [OF c, of "rows t"]
    by (simp add: cop concat_windows M_def n_def)
  then have "length (concat (copied evs)) = n" by (simp add: n_def)
  then have sm: "sum_list (map length (copied evs)) = n" by (simp add: length_concat)
  define d' where "d' = \<lparr>committed =
         (if M = 0 then committed d
          else (committed d)(target_table := take (M * c) (rows t))),
       working =
         (if M = 0 then committed d
          else (committed d)(target_table := take (M * c) (rows t))),
       trace = trace d @
         concat (map (chunk_events target_table (columns t) c (rows t)) [0..<M]) @
         (if length (rows t) mod c \<noteq> 0 \<and> M = Suc (length (rows t) div c)
          then []
          else [Collect (M * c) c (length (window c (rows t) M))]) @
         [Close]\<rparr>"
  have run': "load_chunked_blob_data_to_postgres True fails lazy_df target_table c d = (None, d')"
    using run by (simp add: d'_def)
  have tr: "trace d' = trace d @ evs"
    by (simp add: d'_def evs_def n_def)
  show ?thesis
  proof (intro exI conjI)
    show "load_chunked_blob_data_to_postgres True fails lazy_df target_table c d = (None, d')"
      by (rule run')
    show "trace d' = trace d @ evs" by (rule tr)
    show "collected evs = map (\<lambda>j. (j * c, c)) [0..<Suc (length (rows t) div c)]"
      using col by (simp add: n_def)
    show "copied evs = map (window c (rows t)) [0..<ceil_div (length (rows t)) c]"
      using cop by (simp add: M_def n_def)
    show "length (copied evs) = ceil_div (length (rows t)) c"
      using len by (simp add: M_def n_def)
    show "\<forall>j. Suc j < ceil_div (length (rows t)) c \<longrightarrow> length (copied evs ! j) = c"
      using full by (simp add: M_def n_def)
    show "0 < ceil_div (length (rows t)) c \<longrightarrow>
        (length (last (copied evs)) < c \<longleftrightarrow> \<not> c dvd length (rows t)) \<and>
        (c dvd length (rows t) \<longrightarrow> length (last (copied evs)) = c)"
      using fin by (simp add: M_def n_def)
    show "concat (copied evs) = rows t" by (rule cat)
    show "sum_list (map length (copied evs)) = length (rows t)"
      using sm by (simp add: n_def)
  qed
qed


text \<open>
  The claim as stated fails where the chunk size divides the number of rows: with 4 rows
  and chunk size 2 the loader loads two windows, and the final loaded window has length
  2, not less.
\<close>

theorem chunked_loader_windows_counterexample:
  "copied (trace (snd (load_chunked_blob_data_to_postgres True no_faults
       (ScanCsv \<lparr>columns = [''zip''], rows = [[PyInt 1], [PyInt 2], [PyInt 3], [PyInt 4]]\<rparr>)
       ''zip_county'' 2 empty_pg))) =
     [[[PyInt 1], [PyInt 2]], [[PyInt 3], [PyInt 4]]] \<and>
   \<not> length (last (copied (trace (snd (load_chunked_blob_data_to_postgres True no_faults
       (ScanCsv \<lparr>columns = [''zip''], rows = [[PyInt 1], [PyInt 2], [PyInt 3], [PyInt 4]]\<rparr>)
       ''zip_county'' 2 empty_pg))))) < 2"
proof -
  have t: "collect (ScanCsv \<lparr>columns = [''zip''], rows = [[PyInt 1], [PyInt 2], [PyInt 3], [PyInt 4]]\<rparr>) =
      Inr \<lparr>columns = [''zip''], rows = [[PyInt 1], [PyInt 2], [PyInt 3], [PyInt 4]]\<rparr>"
    by simp
  have c: "(0::nat) < 2" by simp
  have ok: "\<forall>k st. \<not> no_faults k st" by (simp add: no_faults_def)
  have n: "length (rows \<lparr>columns = [''zip''], rows = [[PyInt 1], [PyInt 2], [PyInt 3], [PyInt 4]]\<rparr>) = 4" by simp
  have lc: "loaded_chunks ''zip_county'' 4 2 = 2"
    by (simp add: loaded_chunks_def ceil_div_def)
  have u: "[0..<2] = [0, 1::nat]"
    by (simp add: numeral_2_eq_2)
  note run = load_no_faults [OF t c ok, of "''zip_county''" empty_pg, unfolded n lc]
  have "copied (trace (snd (load_chunked_blob_data_to_postgres True no_faults
       (ScanCsv \<lparr>columns = [''zip''], rows = [[PyInt 1], [PyInt 2], [PyInt 3], [PyInt 4]]\<rparr>)
       ''zip_county'' 2 empty_pg))) =
     [[[PyInt 1], [PyInt 2]], [[PyInt 3], [PyInt 4]]]"
    unfolding run
    by (simp add: copied_append chunk_events_def empty_pg_def window_def u)
  then show ?thesis by simp
qed

text \<open>The amended claim at 5 rows and chunk size 2: windows of 2, 2 and 1 rows.\<close>

theorem chunked_loader_windows_witness:
  "\<exists>d' evs.
     load_chunked_blob_data_to_postgres True no_faults
       (ScanCsv \<lparr>columns = [''zip''], rows = [[PyInt 1], [PyInt 2], [PyInt 3], [PyInt 4], [PyInt 5]]\<rparr>)
       ''zip_county'' 2 empty_pg = (None, d') \<and>
     trace d' = trace empty_pg @ evs \<and>
     collected evs = [(0, 2), (2, 2), (4, 2)] \<and>
     copied evs = [[[PyInt 1], [PyInt 2]], [[PyInt 3], [PyInt 4]], [[PyInt 5]]] \<and>
     length (copied evs) = 3 \<and>
     length (last (copied evs)) < 2"
proof -
  have t: "collect (ScanCsv \<lparr>columns = [''zip''], rows = [[PyInt 1], [PyInt 2], [PyInt 3], [PyInt 4], [PyInt 5]]\<rparr>) =
      Inr \<lparr>columns = [''zip''], rows = [[PyInt 1], [PyInt 2], [PyInt 3], [PyInt 4], [PyInt 5]]\<rparr>"
    by simp
  have c: "(0::nat) < 2" by simp
  have tt: "''zip_county'' \<noteq> ''nppes_providers''" by simp
  have ok: "\<forall>k st. \<not> no_faults k st" by (simp add: no_faults_def)
  from chunked_loader_windows [OF t c tt ok, of empty_pg]
  obtain d' evs where r:
    "load_chunked_blob_data_to_postgres True no_faults
       (ScanCsv \<lparr>columns = [''zip''], rows = [[PyInt 1], [PyInt 2], [PyInt 3], [PyInt 4], [PyInt 5]]\<rparr>)
       ''zip_county'' 2 empty_pg = (None, d')"
    "trace d' = trace empty_pg @ evs"
    "collected evs = map (\<lambda>j. (j * 2, 2))
       [0..<Suc (length (rows \<lparr>columns = [''zip''], rows = [[PyInt 1], [PyInt 2], [PyInt 3], [PyInt 4], [PyInt 5]]\<rparr>) div 2)]"
    "copied evs = map (window 2 (rows \<lparr>columns = [''zip''], rows = [[PyInt 1], [PyInt 2], [PyInt 3], [PyInt 4], [PyInt 5]]\<rparr>))
       [0..<ceil_div (length (rows \<lparr>columns = [''zip''], rows = [[PyInt 1], [PyInt 2], [PyInt 3], [PyInt 4], [PyInt 5]]\<rparr>)) 2]"
    by blast
  have n: "length (rows \<lparr>columns = [''zip''], rows = [[PyInt 1], [PyInt 2], [PyInt 3], [PyInt 4], [PyInt 5]]\<rparr>) = 5" by simp
  have cd: "ceil_div 5 2 = 3" by (simp add: ceil_div_def)
  have u: "[0..<3] = [0, 1, 2::nat]"
    by (simp add: numeral_3_eq_3 numeral_2_eq_2)
  have c3: "collected evs = [(0, 2), (2, 2), (4, 2)]"
    using r(3) unfolding n by (simp add: u)
  have c4: "copied evs = [[[PyInt 1], [PyInt 2]], [[PyInt 3], [PyInt 4]], [[PyInt 5]]]"
    using r(4) unfolding n cd by (simp add: u window_def)
  show ?thesis
    apply (rule exI [of _ d'])
    apply (rule exI [of _ evs])
    apply (simp add: r(1) r(2) c3 c4)
    done
qed


lemma insert_chunk_trace:
  "\<exists>evs. trace (snd (insert_chunk fails k target_table b d)) = trace d @ evs \<and>
     length (copied evs) \<le> 1 \<and> (\<forall>w \<in> set (copied evs). w = rows b) \<and>
     (k \<noteq> 1 \<longrightarrow> truncated evs = [])"
  by (cases "k = 1"; cases "fails k StTruncate"; cases "fails k StCopy";
      cases "fails k StCommit")
     (simp_all add: insert_chunk_def execute_truncate_def copy_from_def commit_def
        rollback_def log_event_def Let_def)

lemma load_loop_trace:
  "\<exists>evs. trace (conn (snd (load_loop fails lazy_df target_table c s))) = trace (conn s) @ evs \<and>
     (1 \<le> chunk_count s \<longrightarrow> truncated evs = []) \<and>
     (target_table = ''nppes_providers'' \<and> chunk_count s \<le> 5 \<longrightarrow>
        length (copied evs) \<le> 5 - chunk_count s) \<and>
     (\<forall>w \<in> set (copied evs). length w \<le> c)"
proof (induction fails lazy_df target_table c s rule: load_loop.induct)
  case (1 fails lazy_df target_table c s)
  let ?s1 = "s\<lparr>chunk_count := chunk_count s + 1\<rparr>"
  show ?case
  proof (cases "collect_slice lazy_df (total_rows_processed s) c")
    case (Inl e)
    then have "load_loop fails lazy_df target_table c s = (Some e, ?s1)"
      by (subst load_loop.simps) (simp add: Let_def)
    then show ?thesis by simp
  next
    case (Inr b)
    let ?ev = "Collect (total_rows_processed s) c (length (rows b))"
    let ?s2 = "?s1\<lparr>conn := log_event ?ev (conn s)\<rparr>"
    have lb: "length (rows b) \<le> c"
      using Inr by (auto simp: collect_slice_def split: sum.splits)
    show ?thesis
    proof (cases "rows b = [] \<or> (chunk_count s + 1 = 6 \<and> target_table = ''nppes_providers'')")
      case True
      then have "load_loop fails lazy_df target_table c s = (None, ?s2)"
        by (subst load_loop.simps) (auto simp: Let_def Inr)
      then have "trace (conn (snd (load_loop fails lazy_df target_table c s))) =
          trace (conn s) @ [?ev]"
        by (simp add: log_event_def)
      then show ?thesis by (intro exI [of _ "[?ev]"]) simp
    next
      case False
      obtain e dd where ic:
        "insert_chunk fails (Suc (chunk_count s)) target_table b (log_event ?ev (conn s)) =
           (e, dd)"
        by fastforce
      from insert_chunk_trace [of fails "Suc (chunk_count s)" target_table b
          "log_event ?ev (conn s)"] ic
      obtain evs1 where e1: "trace dd = trace (conn s) @ ?ev # evs1"
        "length (copied evs1) \<le> 1" "\<forall>w \<in> set (copied evs1). w = rows b"
        "1 \<le> chunk_count s \<longrightarrow> truncated evs1 = []"
        by (auto simp: log_event_def)
      from False have cc4: "target_table = ''nppes_providers'' \<and> chunk_count s \<le> 5 \<longrightarrow>
          chunk_count s \<le> 4" by auto
      let ?s3 = "?s2\<lparr>conn := dd,
          total_rows_processed := total_rows_processed s + length (rows b)\<rparr>"
      have base: "(1 \<le> chunk_count s \<longrightarrow> truncated (?ev # evs1) = []) \<and>
         (target_table = ''nppes_providers'' \<and> chunk_count s \<le> 5 \<longrightarrow>
            length (copied (?ev # evs1)) \<le> 5 - chunk_count s) \<and>
         (\<forall>w \<in> set (copied (?ev # evs1)). length w \<le> c)"
        using e1 lb cc4 by auto
      show ?thesis
      proof (cases "e = None \<and> \<not> length (rows b) < c")
        case False
        then have "load_loop fails lazy_df target_table c s =
            (if e = None then (None, ?s3) else (e, ?s2\<lparr>conn := dd\<rparr>))"
          using \<open>\<not> (rows b = [] \<or> (chunk_count s + 1 = 6 \<and>
              target_table = ''nppes_providers''))\<close>
          by (subst load_loop.simps) (cases e; auto simp: Let_def Inr ic)
        then have "trace (conn (snd (load_loop fails lazy_df target_table c s))) =
            trace (conn s) @ ?ev # evs1"
          using e1(1) by auto
        with base show ?thesis by (intro exI [of _ "?ev # evs1"]) simp
      next
        case True
        then have rec: "load_loop fails lazy_df target_table c s =
            load_loop fails lazy_df target_table c ?s3"
          using \<open>\<not> (rows b = [] \<or> (chunk_count s + 1 = 6 \<and>
              target_table = ''nppes_providers''))\<close>
          by (subst load_loop.simps) (auto simp: Let_def Inr ic)
        have "\<exists>evs. trace (conn (snd (load_loop fails lazy_df target_table c ?s3))) =
            trace (conn ?s3) @ evs \<and>
            (1 \<le> chunk_count ?s3 \<longrightarrow> truncated evs = []) \<and>
            (target_table = ''nppes_providers'' \<and> chunk_count ?s3 \<le> 5 \<longrightarrow>
               length (copied evs) \<le> 5 - chunk_count ?s3) \<and>
            (\<forall>w \<in> set (copied evs). length w \<le> c)"
          using "1.IH" [of ?s1 b ?s2 e dd ?s3] Inr True ic
            \<open>\<not> (rows b = [] \<or> (chunk_count s + 1 = 6 \<and>
              target_table = ''nppes_providers''))\<close>
          by auto
        then obtain evs2 where e2:
          "trace (conn (snd (load_loop fails lazy_df target_table c ?s3))) =
             trace dd @ evs2"
          "truncated evs2 = []"
          "target_table = ''nppes_providers'' \<and> chunk_count s \<le> 4 \<longrightarrow>
             length (copied evs2) \<le> 4 - chunk_count s"
          "\<forall>w \<in> set (copied evs2). length w \<le> c"
          by auto
        have "trace (conn (snd (load_loop fails lazy_df target_table c s))) =
            trace (conn s) @ (?ev # evs1 @ evs2)"
          using rec e2(1) e1(1) by simp
        moreover have "(1 \<le> chunk_count s \<longrightarrow> truncated (?ev # evs1 @ evs2) = []) \<and>
         (target_table = ''nppes_providers'' \<and> chunk_count s \<le> 5 \<longrightarrow>
            length (copied (?ev # evs1 @ evs2)) \<le> 5 - chunk_count s) \<and>
         (\<forall>w \<in> set (copied (?ev # evs1 @ evs2)). length w \<le> c)"
          using base e1(2) e2 cc4 by (auto simp: truncated_append copied_append)
        ultimately show ?thesis by (intro exI [of _ "?ev # evs1 @ evs2"]) simp
      qed
    qed
  qed
qed


lemma sum_list_length_bound:
  "\<forall>w \<in> set ws. length w \<le> c \<Longrightarrow> sum_list (map length ws) \<le> length ws * c"
  by (induction ws) auto

lemma ceil_div_pos:
  assumes c: "0 < c" and n: "0 < n"
  shows "0 < ceil_div n c"
proof (cases "n mod c = 0")
  case True
  then have "c dvd n" by (simp add: mod_eq_0_iff_dvd)
  with n have "c \<le> n" by (simp add: dvd_imp_le)
  with c have "0 < n div c" by (simp add: div_greater_zero_iff)
  with True c show ?thesis by (simp add: ceil_div_eq)
next
  case False
  with c show ?thesis by (simp add: ceil_div_eq)
qed

lemma load_no_faults_committed:
  assumes t: "collect lazy_df = Inr t" and c: "0 < c" and ok: "\<forall>k st. \<not> fails k st"
    and ne: "rows t \<noteq> []"
  shows "fst (load_chunked_blob_data_to_postgres True fails lazy_df target_table c d) = None"
    and "committed (snd (load_chunked_blob_data_to_postgres True fails lazy_df target_table c d))
           target_table =
         (if target_table = ''nppes_providers'' then take (5 * c) (rows t) else rows t)"
proof -
  note run = load_no_faults [OF t c ok, of target_table d]
  show "fst (load_chunked_blob_data_to_postgres True fails lazy_df target_table c d) = None"
    unfolding run by simp
  from ne have pos: "0 < ceil_div (length (rows t)) c"
    using ceil_div_pos [OF c] by simp
  have all: "take (ceil_div (length (rows t)) c * c) (rows t) = rows t"
    by (rule take_all_windows [OF c])
  have "take (min 5 (ceil_div (length (rows t)) c) * c) (rows t) = take (5 * c) (rows t)"
  proof (cases "ceil_div (length (rows t)) c \<le> 5")
    case True
    then have le5: "ceil_div (length (rows t)) c * c \<le> 5 * c" by (rule mult_le_mono1)
    have "length (take (ceil_div (length (rows t)) c * c) (rows t)) = length (rows t)"
      by (simp only: all)
    then have "length (rows t) \<le> ceil_div (length (rows t)) c * c" by simp
    from this le5 have "length (rows t) \<le> 5 * c" by (rule le_trans)
    then have "take (5 * c) (rows t) = rows t" by simp
    with True all show ?thesis by simp
  next
    case False
    then show ?thesis by simp
  qed
  then have t5: "take (min 5 (ceil_div (length (rows t)) c) * c) (rows t) = take (5 * c) (rows t)" .
  have lc: "loaded_chunks target_table (length (rows t)) c \<noteq> 0"
    using pos by (simp add: loaded_chunks_def)
  have tk: "take (loaded_chunks target_table (length (rows t)) c * c) (rows t) =
      (if target_table = ''nppes_providers'' then take (5 * c) (rows t) else rows t)"
  proof (cases "target_table = ''nppes_providers''")
    case True
    then have "loaded_chunks target_table (length (rows t)) c =
        min 5 (ceil_div (length (rows t)) c)" by (simp add: loaded_chunks_def)
    with t5 True show ?thesis by simp
  next
    case False
    then have "loaded_chunks target_table (length (rows t)) c =
        ceil_div (length (rows t)) c" by (simp add: loaded_chunks_def)
    with all False show ?thesis by simp
  qed
  show "committed (snd (load_chunked_blob_data_to_postgres True fails lazy_df
           target_table c d)) target_table =
         (if target_table = ''nppes_providers'' then take (5 * c) (rows t) else rows t)"
    unfolding run using lc tk by simp
qed

text \<open>
  Claim C6. For the table \<open>nppes_providers\<close> every run of the Chunked Loader, whatever
  fails in the store, hands at most 5 chunks to the bulk copy, with at most 5 times the
  chunk size rows in all; without failures the table ends with the first
  \<open>5 * chunk_size\<close> rows of the dataset, the rest being left out even though it remains.
  A load to any other table is not capped: without failures the table ends with every
  row of the dataset.
\<close>

theorem demo_row_cap:
  "(\<exists>evs. trace (snd (load_chunked_blob_data_to_postgres connect_ok fails lazy_df
                 ''nppes_providers'' c d)) = trace d @ evs \<and>
       length (copied evs) \<le> 5 \<and> sum_list (map length (copied evs)) \<le> 5 * c) \<and>
   (collect lazy_df = Inr t \<and> 0 < c \<and> (\<forall>k st. \<not> fails' k st) \<and> rows t \<noteq> [] \<longrightarrow>
      fst (load_chunked_blob_data_to_postgres True fails' lazy_df ''nppes_providers'' c d) = None \<and>
      committed (snd (load_chunked_blob_data_to_postgres True fails' lazy_df
                   ''nppes_providers'' c d)) ''nppes_providers'' = take (5 * c) (rows t)) \<and>
   (collect lazy_df = Inr t \<and> 0 < c \<and> (\<forall>k st. \<not> fails' k st) \<and> rows t \<noteq> [] \<and>
    target_table \<noteq> ''nppes_providers'' \<longrightarrow>
      fst (load_chunked_blob_data_to_postgres True fails' lazy_df target_table c d) = None \<and>
      committed (snd (load_chunked_blob_data_to_postgres True fails' lazy_df
                   target_table c d)) target_table = rows t)"
proof (intro conjI impI)
  show "\<exists>evs. trace (snd (load_chunked_blob_data_to_postgres connect_ok fails lazy_df
                 ''nppes_providers'' c d)) = trace d @ evs \<and>
       length (copied evs) \<le> 5 \<and> sum_list (map length (copied evs)) \<le> 5 * c"
  proof (cases connect_ok)
    case False
    then show ?thesis by (simp add: load_chunked_blob_data_to_postgres_def)
  next
    case True
    let ?s0 = "\<lparr>chunk_count = 0, total_rows_processed = 0, conn = connect d\<rparr>"
    from load_loop_trace [of fails lazy_df "''nppes_providers''" c ?s0]
    obtain evs where e: "trace (conn (snd (load_loop fails lazy_df ''nppes_providers'' c ?s0))) =
        trace d @ evs" "length (copied evs) \<le> 5" "\<forall>w \<in> set (copied evs). length w \<le> c"
      by (auto simp: connect_def)
    from sum_list_length_bound [OF e(3)] e(2)
    have "sum_list (map length (copied evs)) \<le> 5 * c"
      by (meson le_trans mult_le_mono1)
    with e(1,2) have "trace (snd (load_chunked_blob_data_to_postgres connect_ok fails lazy_df
                 ''nppes_providers'' c d)) = trace d @ (evs @ [Close]) \<and>
       length (copied (evs @ [Close])) \<le> 5 \<and>
       sum_list (map length (copied (evs @ [Close]))) \<le> 5 * c"
      using True
      by (cases "load_loop fails lazy_df ''nppes_providers'' c ?s0")
         (simp add: load_chunked_blob_data_to_postgres_def close_def log_event_def
            copied_append)
    then show ?thesis by blast
  qed
next
  assume a: "collect lazy_df = Inr t \<and> 0 < c \<and> (\<forall>k st. \<not> fails' k st) \<and> rows t \<noteq> []"
  then show "fst (load_chunked_blob_data_to_postgres True fails' lazy_df
      ''nppes_providers'' c d) = None"
    using load_no_faults_committed(1) [of lazy_df t c fails'] by blast
  from a show "committed (snd (load_chunked_blob_data_to_postgres True fails' lazy_df
                   ''nppes_providers'' c d)) ''nppes_providers'' = take (5 * c) (rows t)"
    using load_no_faults_committed(2) [of lazy_df t c fails' "''nppes_providers''" d] by simp
next
  assume a: "collect lazy_df = Inr t \<and> 0 < c \<and> (\<forall>k st. \<not> fails' k st) \<and> rows t \<noteq> [] \<and>
    target_table \<noteq> ''nppes_providers''"
  then show "fst (load_chunked_blob_data_to_postgres True fails' lazy_df target_table c d) = None"
    using load_no_faults_committed(1) [of lazy_df t c fails'] by blast
  from a show "committed (snd (load_chunked_blob_data_to_postgres True fails' lazy_df
                   target_table c d)) target_table = rows t"
    using load_no_faults_committed(2) [of lazy_df t c fails' target_table d] by simp
qed

text \<open>
  The theorem at a dataset of seven rows and chunk size 1: \<open>nppes_providers\<close> receives the
  first five rows, \<open>zip_county\<close> all seven.
\<close>

theorem demo_row_cap_witness:
  "committed (snd (load_chunked_blob_data_to_postgres True no_faults
      (ScanCsv \<lparr>columns = [''npi''], rows = [[PyInt 1], [PyInt 2], [PyInt 3], [PyInt 4], [PyInt 5], [PyInt 6], [PyInt 7]]\<rparr>) ''nppes_providers'' 1 empty_pg)) ''nppes_providers'' =
     [[PyInt 1], [PyInt 2], [PyInt 3], [PyInt 4], [PyInt 5]] \<and>
   committed (snd (load_chunked_blob_data_to_postgres True no_faults
      (ScanCsv \<lparr>columns = [''npi''], rows = [[PyInt 1], [PyInt 2], [PyInt 3], [PyInt 4], [PyInt 5], [PyInt 6], [PyInt 7]]\<rparr>) ''zip_county'' 1 empty_pg)) ''zip_county'' =
     [[PyInt 1], [PyInt 2], [PyInt 3], [PyInt 4], [PyInt 5], [PyInt 6], [PyInt 7]]"
proof -
  have h: "collect (ScanCsv \<lparr>columns = [''npi''], rows = [[PyInt 1], [PyInt 2], [PyInt 3], [PyInt 4], [PyInt 5], [PyInt 6], [PyInt 7]]\<rparr>) = Inr \<lparr>columns = [''npi''], rows = [[PyInt 1], [PyInt 2], [PyInt 3], [PyInt 4], [PyInt 5], [PyInt 6], [PyInt 7]]\<rparr> \<and> (0::nat) < 1 \<and> (\<forall>k st. \<not> no_faults k st) \<and>
      rows \<lparr>columns = [''npi''], rows = [[PyInt 1], [PyInt 2], [PyInt 3], [PyInt 4], [PyInt 5], [PyInt 6], [PyInt 7]]\<rparr> \<noteq> []"
    by (simp add: no_faults_def)
  have h': "collect (ScanCsv \<lparr>columns = [''npi''], rows = [[PyInt 1], [PyInt 2], [PyInt 3], [PyInt 4], [PyInt 5], [PyInt 6], [PyInt 7]]\<rparr>) = Inr \<lparr>columns = [''npi''], rows = [[PyInt 1], [PyInt 2], [PyInt 3], [PyInt 4], [PyInt 5], [PyInt 6], [PyInt 7]]\<rparr> \<and> (0::nat) < 1 \<and> (\<forall>k st. \<not> no_faults k st) \<and>
      rows \<lparr>columns = [''npi''], rows = [[PyInt 1], [PyInt 2], [PyInt 3], [PyInt 4], [PyInt 5], [PyInt 6], [PyInt 7]]\<rparr> \<noteq> [] \<and> ''zip_county'' \<noteq> ''nppes_providers''"
    by (simp add: no_faults_def)
  note th = demo_row_cap [where connect_ok = True and fails = no_faults
      and fails' = no_faults and lazy_df = "ScanCsv \<lparr>columns = [''npi''], rows = [[PyInt 1], [PyInt 2], [PyInt 3], [PyInt 4], [PyInt 5], [PyInt 6], [PyInt 7]]\<rparr>"
      and c = 1 and d = empty_pg and t = "\<lparr>columns = [''npi''], rows = [[PyInt 1], [PyInt 2], [PyInt 3], [PyInt 4], [PyInt 5], [PyInt 6], [PyInt 7]]\<rparr>"
      and target_table = "''zip_county''"]
  from th h have "committed (snd (load_chunked_blob_data_to_postgres True no_faults
      (ScanCsv \<lparr>columns = [''npi''], rows = [[PyInt 1], [PyInt 2], [PyInt 3], [PyInt 4], [PyInt 5], [PyInt 6], [PyInt 7]]\<rparr>) ''nppes_providers'' 1 empty_pg)) ''nppes_providers'' =
     take (5 * 1) (rows \<lparr>columns = [''npi''], rows = [[PyInt 1], [PyInt 2], [PyInt 3], [PyInt 4], [PyInt 5], [PyInt 6], [PyInt 7]]\<rparr>)"
    by blast
  moreover from th h' have "committed (snd (load_chunked_blob_data_to_postgres True no_faults
      (ScanCsv \<lparr>columns = [''npi''], rows = [[PyInt 1], [PyInt 2], [PyInt 3], [PyInt 4], [PyInt 5], [PyInt 6], [PyInt 7]]\<rparr>) ''zip_county'' 1 empty_pg)) ''zip_county'' = rows \<lparr>columns = [''npi''], rows = [[PyInt 1], [PyInt 2], [PyInt 3], [PyInt 4], [PyInt 5], [PyInt 6], [PyInt 7]]\<rparr>"
    by blast
  ultimately show ?thesis by simp
qed


text \<open>
  Claim C3. Let \<open>m\<close> chunks have been committed and let the bulk copy of the next chunk,
  number \<open>m + 1\<close>, fail. Then the loader re-raises the failure; the transaction of chunk
  \<open>m + 1\<close> is rolled back, so the connection sees the committed contents again; the table
  holds exactly the rows of the chunks \<open>1, \<dots>, m\<close> (its contents from before the load when
  \<open>m = 0\<close>, the truncate being rolled back with the copy); the failed copy is the last
  bulk copy attempted, followed only by the rollback and the closing of the connection.
\<close>

theorem failed_chunk_aborts_load:
  assumes t: "collect lazy_df = Inr t" and c: "0 < c"
    and exists: "m * c < length (rows t)"
    and cap: "target_table \<noteq> ''nppes_providers'' \<or> Suc m \<le> 5"
    and ok: "\<forall>k. 1 \<le> k \<and> k \<le> m \<longrightarrow> (\<forall>st. \<not> fails k st)"
    and tr: "m = 0 \<longrightarrow> \<not> fails 1 StTruncate"
    and cp: "fails (Suc m) StCopy"
  shows "\<exists>d' evs.
     load_chunked_blob_data_to_postgres True fails lazy_df target_table c d =
       (Some DatabaseError, d') \<and>
     committed d' = (if m = 0 then committed d
                     else (committed d)(target_table := take (m * c) (rows t))) \<and>
     working d' = committed d' \<and>
     trace d' = trace d @ evs @
       [CopyFrom target_table (columns t) (window c (rows t) m), Rollback, Close] \<and>
     copied evs = map (window c (rows t)) [0..<m]"
proof -
  let ?A = "after_chunks target_table t c (connect d)"
  from exists have full: "m * c \<le> length (rows t)" by simp
  from cap have cap': "target_table \<noteq> ''nppes_providers'' \<or> m \<le> 5" by auto
  have s0: "\<lparr>chunk_count = 0, total_rows_processed = 0, conn = connect d\<rparr> = ?A 0"
    by (simp add: after_chunks_def)
  have run: "load_loop fails lazy_df target_table c (?A 0) =
      load_loop fails lazy_df target_table c (?A m)"
    by (rule load_loop_run_full [OF t c full ok cap'])
  have cc: "chunk_count (?A m) = m" by (simp add: after_chunks_def)
  have tot: "total_rows_processed (?A m) = m * c"
    using full by (simp add: after_chunks_def)
  have w: "window c (rows t) m \<noteq> []"
    using exists c by (simp add: window_def)
  have capm: "\<not> (Suc m = 6 \<and> target_table = ''nppes_providers'')"
    using cap by auto
  note fail = load_loop_copy_fails [OF t cc tot w capm tr cp]
  define evs where "evs =
     concat (map (chunk_events target_table (columns t) c (rows t)) [0..<m]) @
     Collect (m * c) c (length (window c (rows t) m)) #
     (if m = 0 then [Truncate target_table] else [])"
  define d' where "d' = \<lparr>committed = (if m = 0 then committed d
                     else (committed d)(target_table := take (m * c) (rows t))),
       working = (if m = 0 then committed d
                     else (committed d)(target_table := take (m * c) (rows t))),
       trace = trace d @ evs @
         [CopyFrom target_table (columns t) (window c (rows t) m), Rollback, Close]\<rparr>"
  have res: "load_chunked_blob_data_to_postgres True fails lazy_df target_table c d =
       (Some DatabaseError, d')"
    unfolding load_chunked_blob_data_to_postgres_def s0 run fail
    by (simp add: after_chunks_def close_def log_event_def connect_def d'_def evs_def)
  have cop: "copied evs = map (window c (rows t)) [0..<m]"
    by (simp add: evs_def copied_append copied_chunks)
  show ?thesis
  proof (intro exI conjI)
    show "load_chunked_blob_data_to_postgres True fails lazy_df target_table c d =
       (Some DatabaseError, d')" by (rule res)
    show "committed d' = (if m = 0 then committed d
                     else (committed d)(target_table := take (m * c) (rows t)))"
      by (simp add: d'_def)
    show "working d' = committed d'" by (simp add: d'_def)
    show "trace d' = trace d @ evs @
       [CopyFrom target_table (columns t) (window c (rows t) m), Rollback, Close]"
      by (simp add: d'_def)
    show "copied evs = map (window c (rows t)) [0..<m]" by (rule cop)
  qed
qed


text \<open>
  The theorem at five rows in chunks of one, the copy of chunk 3 failing: chunks 1 and 2
  stay committed, chunk 3 is the last one attempted.
\<close>

theorem failed_chunk_aborts_load_witness:
  "\<exists>d'. load_chunked_blob_data_to_postgres True (fail_copy_at 3) (ScanCsv \<lparr>columns = [''zip''], rows = [[PyInt 1], [PyInt 2], [PyInt 3], [PyInt 4], [PyInt 5]]\<rparr>)
          ''zip_county'' 1 empty_pg = (Some DatabaseError, d') \<and>
        committed d' ''zip_county'' = [[PyInt 1], [PyInt 2]] \<and>
        working d' = committed d' \<and>
        copied (trace d') = [[[PyInt 1]], [[PyInt 2]], [[PyInt 3]]]"
proof -
  have t: "collect (ScanCsv \<lparr>columns = [''zip''], rows = [[PyInt 1], [PyInt 2], [PyInt 3], [PyInt 4], [PyInt 5]]\<rparr>) = Inr \<lparr>columns = [''zip''], rows = [[PyInt 1], [PyInt 2], [PyInt 3], [PyInt 4], [PyInt 5]]\<rparr>" by simp
  have c: "(0::nat) < 1" by simp
  have ex: "2 * 1 < length (rows \<lparr>columns = [''zip''], rows = [[PyInt 1], [PyInt 2], [PyInt 3], [PyInt 4], [PyInt 5]]\<rparr>)" by simp
  have cap: "''zip_county'' \<noteq> ''nppes_providers'' \<or> Suc 2 \<le> 5" by simp
  have ok: "\<forall>k. 1 \<le> k \<and> k \<le> 2 \<longrightarrow> (\<forall>st. \<not> fail_copy_at 3 k st)"
    by (simp add: fail_copy_at_def)
  have tr: "(2::nat) = 0 \<longrightarrow> \<not> fail_copy_at 3 1 StTruncate" by simp
  have cp: "fail_copy_at 3 (Suc 2) StCopy" by (simp add: fail_copy_at_def)
  from failed_chunk_aborts_load [OF t c ex cap ok tr cp, of empty_pg]
  obtain d' evs where r:
    "load_chunked_blob_data_to_postgres True (fail_copy_at 3) (ScanCsv \<lparr>columns = [''zip''], rows = [[PyInt 1], [PyInt 2], [PyInt 3], [PyInt 4], [PyInt 5]]\<rparr>)
          ''zip_county'' 1 empty_pg = (Some DatabaseError, d')"
    "committed d' = (if (2::nat) = 0 then committed empty_pg
         else (committed empty_pg)(''zip_county'' := take (2 * 1) (rows \<lparr>columns = [''zip''], rows = [[PyInt 1], [PyInt 2], [PyInt 3], [PyInt 4], [PyInt 5]]\<rparr>)))"
    "working d' = committed d'"
    "trace d' = trace empty_pg @ evs @
       [CopyFrom ''zip_county'' (columns \<lparr>columns = [''zip''], rows = [[PyInt 1], [PyInt 2], [PyInt 3], [PyInt 4], [PyInt 5]]\<rparr>) (window 1 (rows \<lparr>columns = [''zip''], rows = [[PyInt 1], [PyInt 2], [PyInt 3], [PyInt 4], [PyInt 5]]\<rparr>) 2), Rollback, Close]"
    "copied evs = map (window 1 (rows \<lparr>columns = [''zip''], rows = [[PyInt 1], [PyInt 2], [PyInt 3], [PyInt 4], [PyInt 5]]\<rparr>)) [0..<2]"
    by blast
  have u: "[0..<2] = [0, 1::nat]" by (simp add: numeral_2_eq_2)
  have "committed d' ''zip_county'' = [[PyInt 1], [PyInt 2]]"
    using r(2) by simp
  moreover have "copied (trace d') = [[[PyInt 1]], [[PyInt 2]], [[PyInt 3]]]"
    unfolding r(4) by (simp add: copied_append r(5) u window_def empty_pg_def)
  ultimately show ?thesis using r(1,3) by blast
qed


lemma insert_chunk_committed:
  assumes "working d = committed d" and "k \<noteq> 1"
  shows "\<exists>ws. committed (snd (insert_chunk fails k target_table b (log_event ev d))) =
            (committed d)(target_table := committed d target_table @ ws) \<and>
          working (snd (insert_chunk fails k target_table b (log_event ev d))) =
            committed (snd (insert_chunk fails k target_table b (log_event ev d)))"
proof (cases "fails k StCopy \<or> fails k StCommit")
  case True
  then have "committed (snd (insert_chunk fails k target_table b (log_event ev d))) =
        (committed d)(target_table := committed d target_table @ []) \<and>
      working (snd (insert_chunk fails k target_table b (log_event ev d))) =
        committed (snd (insert_chunk fails k target_table b (log_event ev d)))"
    using assms
    by (cases "fails k StCopy")
       (auto simp: insert_chunk_def copy_from_def commit_def rollback_def log_event_def Let_def)
  then show ?thesis by blast
next
  case False
  then have "committed (snd (insert_chunk fails k target_table b (log_event ev d))) =
        (committed d)(target_table := committed d target_table @ rows b) \<and>
      working (snd (insert_chunk fails k target_table b (log_event ev d))) =
        committed (snd (insert_chunk fails k target_table b (log_event ev d)))"
    using assms
    by (auto simp: insert_chunk_def copy_from_def commit_def rollback_def log_event_def Let_def)
  then show ?thesis by blast
qed

lemma load_loop_committed:
  "working (conn s) = committed (conn s) \<Longrightarrow> 1 \<le> chunk_count s \<Longrightarrow>
   \<exists>ws. committed (conn (snd (load_loop fails lazy_df target_table c s))) =
          (committed (conn s))(target_table := committed (conn s) target_table @ ws) \<and>
        working (conn (snd (load_loop fails lazy_df target_table c s))) =
          committed (conn (snd (load_loop fails lazy_df target_table c s)))"
proof (induction fails lazy_df target_table c s rule: load_loop.induct)
  case (1 fails lazy_df target_table c s)
  let ?s1 = "s\<lparr>chunk_count := chunk_count s + 1\<rparr>"
  note wc = "1.prems"(1) and cc = "1.prems"(2)
  have triv: "(committed (conn s))(target_table := committed (conn s) target_table @ []) =
      committed (conn s)" by simp
  show ?case
  proof (cases "collect_slice lazy_df (total_rows_processed s) c")
    case (Inl e)
    then have "load_loop fails lazy_df target_table c s = (Some e, ?s1)"
      by (subst load_loop.simps) (simp add: Let_def)
    with wc triv show ?thesis by (intro exI [of _ "[]"]) simp
  next
    case (Inr b)
    let ?ev = "Collect (total_rows_processed s) c (length (rows b))"
    let ?s2 = "?s1\<lparr>conn := log_event ?ev (conn s)\<rparr>"
    show ?thesis
    proof (cases "rows b = [] \<or> (chunk_count s + 1 = 6 \<and> target_table = ''nppes_providers'')")
      case True
      then have "load_loop fails lazy_df target_table c s = (None, ?s2)"
        by (subst load_loop.simps) (auto simp: Let_def Inr)
      with wc triv show ?thesis by (intro exI [of _ "[]"]) (simp add: log_event_def)
    next
      case False
      obtain e dd where ic:
        "insert_chunk fails (Suc (chunk_count s)) target_table b (log_event ?ev (conn s)) =
           (e, dd)"
        by fastforce
      from cc have k: "Suc (chunk_count s) \<noteq> 1" by simp
      from insert_chunk_committed [OF wc k, of fails target_table b ?ev] ic
      obtain ws1 where w1:
        "committed dd = (committed (conn s))(target_table :=
            committed (conn s) target_table @ ws1)"
        "working dd = committed dd"
        by auto
      let ?s3 = "?s2\<lparr>conn := dd,
          total_rows_processed := total_rows_processed s + length (rows b)\<rparr>"
      show ?thesis
      proof (cases "e = None \<and> \<not> length (rows b) < c")
        case False
        then have "load_loop fails lazy_df target_table c s =
            (if e = None then (None, ?s3) else (e, ?s2\<lparr>conn := dd\<rparr>))"
          using \<open>\<not> (rows b = [] \<or> (chunk_count s + 1 = 6 \<and>
              target_table = ''nppes_providers''))\<close>
          by (subst load_loop.simps) (cases e; auto simp: Let_def Inr ic)
        then have "conn (snd (load_loop fails lazy_df target_table c s)) = dd" by simp
        with w1 show ?thesis by (intro exI [of _ ws1]) simp
      next
        case True
        then have rec: "load_loop fails lazy_df target_table c s =
            load_loop fails lazy_df target_table c ?s3"
          using \<open>\<not> (rows b = [] \<or> (chunk_count s + 1 = 6 \<and>
              target_table = ''nppes_providers''))\<close>
          by (subst load_loop.simps) (auto simp: Let_def Inr ic)
        have "\<exists>ws. committed (conn (snd (load_loop fails lazy_df target_table c ?s3))) =
              (committed (conn ?s3))(target_table := committed (conn ?s3) target_table @ ws) \<and>
            working (conn (snd (load_loop fails lazy_df target_table c ?s3))) =
              committed (conn (snd (load_loop fails lazy_df target_table c ?s3)))"
          by (rule "1.IH" [of ?s1 b ?s2 e dd ?s3])
             (use Inr True ic w1(2) \<open>\<not> (rows b = [] \<or> (chunk_count s + 1 = 6 \<and>
                target_table = ''nppes_providers''))\<close> in \<open>simp_all\<close>)
        then obtain ws2 where w2:
          "committed (conn (snd (load_loop fails lazy_df target_table c ?s3))) =
              (committed dd)(target_table := committed dd target_table @ ws2)"
          "working (conn (snd (load_loop fails lazy_df target_table c ?s3))) =
              committed (conn (snd (load_loop fails lazy_df target_table c ?s3)))"
          by auto
        have "committed (conn (snd (load_loop fails lazy_df target_table c s))) =
            (committed (conn s))(target_table := committed (conn s) target_table @ (ws1 @ ws2))"
          unfolding rec w2(1) w1(1) by simp
        with rec w2(2) show ?thesis by (intro exI [of _ "ws1 @ ws2"]) simp
      qed
    qed
  qed
qed


lemma insert_first_chunk:
  "insert_chunk fails 1 target_table b d0 =
    (if fails 1 StTruncate then
       (Some DatabaseError,
        \<lparr>committed = committed d0, working = committed d0,
         trace = trace d0 @ [Truncate target_table, Rollback]\<rparr>)
     else if fails 1 StCopy then
       (Some DatabaseError,
        \<lparr>committed = committed d0, working = committed d0,
         trace = trace d0 @
           [Truncate target_table, CopyFrom target_table (columns b) (rows b), Rollback]\<rparr>)
     else if fails 1 StCommit then
       (Some DatabaseError,
        \<lparr>committed = committed d0, working = committed d0,
         trace = trace d0 @
           [Truncate target_table, CopyFrom target_table (columns b) (rows b), Commit,
            Rollback]\<rparr>)
     else
       (None,
        \<lparr>committed = (working d0)(target_table := rows b),
         working = (working d0)(target_table := rows b),
         trace = trace d0 @
           [Truncate target_table, CopyFrom target_table (columns b) (rows b), Commit]\<rparr>))"
  by (cases d0)
     (simp add: insert_chunk_def execute_truncate_def copy_from_def commit_def rollback_def
        log_event_def Let_def)

lemma load_loop_first:
  assumes t: "collect lazy_df = Inr t" and w: "window c (rows t) 0 \<noteq> []"
  shows "load_loop fails lazy_df target_table c
           \<lparr>chunk_count = 0, total_rows_processed = 0, conn = d0\<rparr> =
         (case insert_chunk fails 1 target_table (t\<lparr>rows := window c (rows t) 0\<rparr>)
                 (log_event (Collect 0 c (length (window c (rows t) 0))) d0) of
            (Some e, dd) \<Rightarrow>
              (Some e, \<lparr>chunk_count = 1, total_rows_processed = 0, conn = dd\<rparr>)
          | (None, dd) \<Rightarrow>
              (if length (window c (rows t) 0) < c
               then (None, \<lparr>chunk_count = 1,
                           total_rows_processed = length (window c (rows t) 0), conn = dd\<rparr>)
               else load_loop fails lazy_df target_table c
                      \<lparr>chunk_count = 1,
                       total_rows_processed = length (window c (rows t) 0), conn = dd\<rparr>))"
proof -
  have cs: "collect_slice lazy_df 0 c = Inr (t\<lparr>rows := window c (rows t) 0\<rparr>)"
    using collect_slice_rows [OF t, of 0 c] by simp
  show ?thesis
    apply (subst load_loop.simps)
    using w
    apply (simp add: Let_def cs split: prod.splits option.splits)
    done
qed


text \<open>
  Claim C2, as amended. In every invocation of the Chunked Loader whose first Row Window
  is not empty, whatever fails in the store, the truncate procedure is called exactly
  once, for the target table, as the first statement after the first window is
  materialized; unless it fails, the next statement is the bulk copy of that first
  window, with no commit or rollback in between, so both belong to one transaction: when
  the copy or the commit fails both are rolled back and the committed tables are as
  before the load; otherwise one commit makes both durable, and the table then holds the
  first window followed by what later chunks add. No later chunk calls the truncate
  procedure. (When the first window is empty the procedure is not called at all.)
\<close>

theorem truncate_with_first_chunk:
  assumes t: "collect lazy_df = Inr t" and ne: "rows t \<noteq> []" and c: "0 < c"
  shows "\<exists>r d' rest.
     load_chunked_blob_data_to_postgres True fails lazy_df target_table c d = (r, d') \<and>
     trace d' = trace d @
       Collect 0 c (length (window c (rows t) 0)) # Truncate target_table # rest \<and>
     truncated (Collect 0 c (length (window c (rows t) 0)) # Truncate target_table # rest) =
       [target_table] \<and>
     (if fails 1 StTruncate then rest = [Rollback, Close] \<and> committed d' = committed d
      else \<exists>rest'. rest = CopyFrom target_table (columns t) (window c (rows t) 0) # rest' \<and>
        (if fails 1 StCopy then rest' = [Rollback, Close] \<and> committed d' = committed d
         else if fails 1 StCommit
           then rest' = [Commit, Rollback, Close] \<and> committed d' = committed d
           else \<exists>rest'' ws. rest' = Commit # rest'' \<and>
                  committed d' = (committed d)(target_table := window c (rows t) 0 @ ws)))"
proof -
  define W where "W = window c (rows t) 0"
  have w: "window c (rows t) 0 \<noteq> []" using ne c by (simp add: window_def)
  define ev where "ev = Collect 0 c (length W)"
  define d0 where "d0 = log_event ev (connect d)"
  have d0: "committed d0 = committed d" "working d0 = committed d" "trace d0 = trace d @ [ev]"
    by (simp_all add: d0_def log_event_def connect_def)
  define b where "b = t\<lparr>rows := W\<rparr>"
  have b: "columns b = columns t" "rows b = W" by (simp_all add: b_def)
  have first: "load_loop fails lazy_df target_table c
           \<lparr>chunk_count = 0, total_rows_processed = 0, conn = connect d\<rparr> =
         (case insert_chunk fails 1 target_table b d0 of
            (Some e, dd) \<Rightarrow>
              (Some e, \<lparr>chunk_count = 1, total_rows_processed = 0, conn = dd\<rparr>)
          | (None, dd) \<Rightarrow>
              (if length W < c
               then (None, \<lparr>chunk_count = 1, total_rows_processed = length W, conn = dd\<rparr>)
               else load_loop fails lazy_df target_table c
                      \<lparr>chunk_count = 1, total_rows_processed = length W, conn = dd\<rparr>))"
    unfolding b_def d0_def ev_def W_def by (rule load_loop_first [OF t w])
  note ins = insert_first_chunk [of fails target_table b d0, unfolded d0 b]
  have tv [simp]: "\<And>rest. truncated (ev # Truncate target_table # rest) =
      target_table # truncated rest"
    by (simp add: ev_def)
  consider (trunc) "fails 1 StTruncate"
    | (copy) "\<not> fails 1 StTruncate" "fails 1 StCopy"
    | (commit) "\<not> fails 1 StTruncate" "\<not> fails 1 StCopy" "fails 1 StCommit"
    | (ok) "\<not> fails 1 StTruncate" "\<not> fails 1 StCopy" "\<not> fails 1 StCommit"
    by blast
  then have "\<exists>r d' rest.
     load_chunked_blob_data_to_postgres True fails lazy_df target_table c d = (r, d') \<and>
     trace d' = trace d @ ev # Truncate target_table # rest \<and>
     truncated (ev # Truncate target_table # rest) = [target_table] \<and>
     (if fails 1 StTruncate then rest = [Rollback, Close] \<and> committed d' = committed d
      else \<exists>rest'. rest = CopyFrom target_table (columns t) W # rest' \<and>
        (if fails 1 StCopy then rest' = [Rollback, Close] \<and> committed d' = committed d
         else if fails 1 StCommit
           then rest' = [Commit, Rollback, Close] \<and> committed d' = committed d
           else \<exists>rest'' ws. rest' = Commit # rest'' \<and>
                  committed d' = (committed d)(target_table := W @ ws)))"
  proof cases
    case trunc
    then have i: "insert_chunk fails 1 target_table b d0 =
        (Some DatabaseError, \<lparr>committed = committed d, working = committed d,
           trace = (trace d @ [ev]) @ [Truncate target_table, Rollback]\<rparr>)"
      unfolding ins by simp
    have res: "load_chunked_blob_data_to_postgres True fails lazy_df target_table c d =
        (Some DatabaseError,
         \<lparr>committed = committed d, working = committed d,
          trace = trace d @ ev # Truncate target_table # [Rollback, Close]\<rparr>)"
      unfolding load_chunked_blob_data_to_postgres_def first i
      by (simp add: close_def log_event_def)
    show ?thesis
      apply (rule exI [of _ "Some DatabaseError"])
      apply (rule exI [of _ "\<lparr>committed = committed d, working = committed d,
          trace = trace d @ ev # Truncate target_table # [Rollback, Close]\<rparr>"])
      apply (rule exI [of _ "[Rollback, Close]"])
      using trunc res apply simp
      done
  next
    case copy
    then have i: "insert_chunk fails 1 target_table b d0 =
        (Some DatabaseError, \<lparr>committed = committed d, working = committed d,
           trace = (trace d @ [ev]) @ [Truncate target_table, CopyFrom target_table (columns t) W, Rollback]\<rparr>)"
      unfolding ins by simp
    have res: "load_chunked_blob_data_to_postgres True fails lazy_df target_table c d =
        (Some DatabaseError,
         \<lparr>committed = committed d, working = committed d,
          trace = trace d @ ev # Truncate target_table #
            (CopyFrom target_table (columns t) W # [Rollback, Close])\<rparr>)"
      unfolding load_chunked_blob_data_to_postgres_def first i
      by (simp add: close_def log_event_def)
    show ?thesis
      apply (rule exI [of _ "Some DatabaseError"])
      apply (rule exI [of _ "\<lparr>committed = committed d, working = committed d,
          trace = trace d @ ev # Truncate target_table # (CopyFrom target_table (columns t) W # [Rollback, Close])\<rparr>"])
      apply (rule exI [of _ "CopyFrom target_table (columns t) W # [Rollback, Close]"])
      using copy res apply simp
      done
  next
    case commit
    then have i: "insert_chunk fails 1 target_table b d0 =
        (Some DatabaseError, \<lparr>committed = committed d, working = committed d,
           trace = (trace d @ [ev]) @ [Truncate target_table, CopyFrom target_table (columns t) W, Commit, Rollback]\<rparr>)"
      unfolding ins by simp
    have res: "load_chunked_blob_data_to_postgres True fails lazy_df target_table c d =
        (Some DatabaseError,
         \<lparr>committed = committed d, working = committed d,
          trace = trace d @ ev # Truncate target_table #
            (CopyFrom target_table (columns t) W # [Commit, Rollback, Close])\<rparr>)"
      unfolding load_chunked_blob_data_to_postgres_def first i
      by (simp add: close_def log_event_def)
    show ?thesis
      apply (rule exI [of _ "Some DatabaseError"])
      apply (rule exI [of _ "\<lparr>committed = committed d, working = committed d,
          trace = trace d @ ev # Truncate target_table # (CopyFrom target_table (columns t) W # [Commit, Rollback, Close])\<rparr>"])
      apply (rule exI [of _ "CopyFrom target_table (columns t) W # [Commit, Rollback, Close]"])
      using commit res apply simp
      done
  next
    case ok
    define dd where "dd = \<lparr>committed = (committed d)(target_table := W),
         working = (committed d)(target_table := W),
         trace = trace d @ [ev] @
           [Truncate target_table, CopyFrom target_table (columns t) W, Commit]\<rparr>"
    let ?s3 = "\<lparr>chunk_count = 1, total_rows_processed = length W, conn = dd\<rparr>"
    have i: "insert_chunk fails 1 target_table b d0 = (None, dd)"
      using ok unfolding ins by (simp add: dd_def)
    have f: "load_loop fails lazy_df target_table c
           \<lparr>chunk_count = 0, total_rows_processed = 0, conn = connect d\<rparr> =
         (if length W < c then (None, ?s3)
          else load_loop fails lazy_df target_table c ?s3)"
      unfolding first i by simp
    have "\<exists>r s' evs2 ws.
        load_loop fails lazy_df target_table c
           \<lparr>chunk_count = 0, total_rows_processed = 0, conn = connect d\<rparr> = (r, s') \<and>
        trace (conn s') = trace dd @ evs2 \<and> truncated evs2 = [] \<and>
        committed (conn s') = (committed dd)(target_table := committed dd target_table @ ws)"
    proof (cases "length W < c")
      case True
      then have "load_loop fails lazy_df target_table c
           \<lparr>chunk_count = 0, total_rows_processed = 0, conn = connect d\<rparr> = (None, ?s3) \<and>
        trace (conn ?s3) = trace dd @ [] \<and> truncated [] = [] \<and>
        committed (conn ?s3) = (committed dd)(target_table := committed dd target_table @ [])"
        by (simp add: f)
      then show ?thesis by blast
    next
      case False
      obtain r s' where rs: "load_loop fails lazy_df target_table c ?s3 = (r, s')"
        by fastforce
      from load_loop_trace [of fails lazy_df target_table c ?s3] rs
      obtain evs2 where e2: "trace (conn s') = trace dd @ evs2" "truncated evs2 = []"
        by auto
      have "working (conn ?s3) = committed (conn ?s3)" by (simp add: dd_def)
      moreover have "1 \<le> chunk_count ?s3" by simp
      ultimately obtain ws where
        "committed (conn s') = (committed dd)(target_table := committed dd target_table @ ws)"
        using load_loop_committed [of ?s3 fails lazy_df target_table c] rs by auto
      with e2 rs False f show ?thesis by auto
    qed
    then obtain r s' evs2 ws where l:
        "load_loop fails lazy_df target_table c
           \<lparr>chunk_count = 0, total_rows_processed = 0, conn = connect d\<rparr> = (r, s')"
        "trace (conn s') = trace dd @ evs2" "truncated evs2 = []"
        "committed (conn s') = (committed dd)(target_table := committed dd target_table @ ws)"
      by blast
    have res: "load_chunked_blob_data_to_postgres True fails lazy_df target_table c d =
        (r, close (conn s'))"
      by (simp add: load_chunked_blob_data_to_postgres_def l(1))
    have tr: "trace (close (conn s')) = trace d @ ev # Truncate target_table #
        (CopyFrom target_table (columns t) W # Commit # (evs2 @ [Close]))"
      by (simp add: close_def log_event_def l(2) dd_def)
    have cm: "committed (close (conn s')) = (committed d)(target_table := W @ ws)"
      by (simp add: close_def log_event_def l(4) dd_def)
    have tn: "truncated (CopyFrom target_table (columns t) W # Commit # (evs2 @ [Close])) = []"
      by (simp add: truncated_append l(3))
    from ok res tr cm tn show ?thesis
      by (intro exI [of _ r] exI [of _ "close (conn s')"]
          exI [of _ "CopyFrom target_table (columns t) W # Commit # (evs2 @ [Close])"])
         auto
  qed
  then show ?thesis unfolding W_def ev_def .
qed


text \<open>
  The claim as stated fails for a dataset without rows: the first window is empty, the
  loop ends, and the truncate procedure is never called.
\<close>

theorem truncate_with_first_chunk_counterexample:
  "fst (load_chunked_blob_data_to_postgres True no_faults (ScanCsv \<lparr>columns = [''zip''], rows = []\<rparr>)
          ''zip_county'' 2 empty_pg) = None \<and>
   truncated (trace (snd (load_chunked_blob_data_to_postgres True no_faults (ScanCsv \<lparr>columns = [''zip''], rows = []\<rparr>)
          ''zip_county'' 2 empty_pg))) = []"
proof -
  have t: "collect (ScanCsv \<lparr>columns = [''zip''], rows = []\<rparr>) = Inr \<lparr>columns = [''zip''], rows = []\<rparr>" by simp
  have c: "(0::nat) < 2" by simp
  have ok: "\<forall>k st. \<not> no_faults k st" by (simp add: no_faults_def)
  have n: "length (rows \<lparr>columns = [''zip''], rows = []\<rparr>) = 0" by simp
  have lc: "loaded_chunks ''zip_county'' 0 2 = 0"
    by (simp add: loaded_chunks_def ceil_div_def)
  note run = load_no_faults [OF t c ok, of "''zip_county''" empty_pg, unfolded n lc]
  show ?thesis unfolding run by (simp add: empty_pg_def)
qed

text \<open>
  The amended claim at three rows in chunks of two, the copy of the first chunk failing:
  the truncate and the copy are rolled back together.
\<close>

theorem truncate_with_first_chunk_witness:
  "\<exists>r d'. load_chunked_blob_data_to_postgres True (fail_copy_at 1) (ScanCsv \<lparr>columns = [''zip''], rows = [[PyInt 1], [PyInt 2], [PyInt 3]]\<rparr>)
          ''zip_county'' 2 empty_pg = (r, d') \<and>
     trace d' = [Collect 0 2 2, Truncate ''zip_county'',
                 CopyFrom ''zip_county'' [''zip''] [[PyInt 1], [PyInt 2]], Rollback, Close] \<and>
     truncated (trace d') = [''zip_county''] \<and>
     committed d' = committed empty_pg"
proof -
  have t: "collect (ScanCsv \<lparr>columns = [''zip''], rows = [[PyInt 1], [PyInt 2], [PyInt 3]]\<rparr>) = Inr \<lparr>columns = [''zip''], rows = [[PyInt 1], [PyInt 2], [PyInt 3]]\<rparr>" by simp
  have ne: "rows \<lparr>columns = [''zip''], rows = [[PyInt 1], [PyInt 2], [PyInt 3]]\<rparr> \<noteq> []" by simp
  have c: "(0::nat) < 2" by simp
  from truncate_with_first_chunk [OF t ne c, of "fail_copy_at 1" "''zip_county''" empty_pg]
  obtain r d' rest where r:
    "load_chunked_blob_data_to_postgres True (fail_copy_at 1) (ScanCsv \<lparr>columns = [''zip''], rows = [[PyInt 1], [PyInt 2], [PyInt 3]]\<rparr>)
          ''zip_county'' 2 empty_pg = (r, d')"
    "trace d' = trace empty_pg @
       Collect 0 2 (length (window 2 (rows \<lparr>columns = [''zip''], rows = [[PyInt 1], [PyInt 2], [PyInt 3]]\<rparr>) 0)) # Truncate ''zip_county'' # rest"
    "if fail_copy_at 1 1 StTruncate then rest = [Rollback, Close] \<and>
        committed d' = committed empty_pg
      else \<exists>rest'. rest = CopyFrom ''zip_county'' (columns \<lparr>columns = [''zip''], rows = [[PyInt 1], [PyInt 2], [PyInt 3]]\<rparr>) (window 2 (rows \<lparr>columns = [''zip''], rows = [[PyInt 1], [PyInt 2], [PyInt 3]]\<rparr>) 0) # rest' \<and>
        (if fail_copy_at 1 1 StCopy then rest' = [Rollback, Close] \<and>
            committed d' = committed empty_pg
         else if fail_copy_at 1 1 StCommit
           then rest' = [Commit, Rollback, Close] \<and> committed d' = committed empty_pg
           else \<exists>rest'' ws. rest' = Commit # rest'' \<and>
                  committed d' = (committed empty_pg)(''zip_county'' :=
                    window 2 (rows \<lparr>columns = [''zip''], rows = [[PyInt 1], [PyInt 2], [PyInt 3]]\<rparr>) 0 @ ws))"
    by blast
  from r(3) have rest: "rest = CopyFrom ''zip_county'' [''zip''] [[PyInt 1], [PyInt 2]] #
      [Rollback, Close]" and cm: "committed d' = committed empty_pg"
    by (auto simp: fail_copy_at_def window_def)
  have tr: "trace d' = [Collect 0 2 2, Truncate ''zip_county'',
                 CopyFrom ''zip_county'' [''zip''] [[PyInt 1], [PyInt 2]], Rollback, Close]"
    using r(2) by (simp add: rest window_def empty_pg_def)
  then have "truncated (trace d') = [''zip_county'']" by simp
  with r(1) tr cm show ?thesis by blast
qed


text \<open>
  Claim C5, as amended. For every source that parses: with an empty retain list the
  Extractor returns a dataset that is the source table itself, columns in the source's
  order and under the source's names (the rename mapping is not applied); with a
  non-empty retain list of distinct columns of the source, whose renamed names are
  distinct and which contains every key of the mapping, the dataset's columns are the
  retain list in its order, renamed by the mapping, and each row holds the values of
  those columns.
\<close>

theorem extractor_columns:
  assumes b: "storage_configured e" "blobs e filename = Some (CsvFile t)"
  shows "(relevant_columns = [] \<longrightarrow>
           (\<exists>lazy_df. extract_csv_data_from_blob e filename relevant_columns column_mapping =
                Some lazy_df \<and> collect lazy_df = Inr t)) \<and>
         (relevant_columns \<noteq> [] \<and> set relevant_columns \<subseteq> set (columns t) \<and>
          distinct relevant_columns \<and> fst ` set column_mapping \<subseteq> set relevant_columns \<and>
          distinct (map (rename_col column_mapping) relevant_columns) \<longrightarrow>
           (\<exists>lazy_df t'. extract_csv_data_from_blob e filename relevant_columns column_mapping =
                Some lazy_df \<and> collect lazy_df = Inr t' \<and>
              columns t' = map (rename_col column_mapping) relevant_columns \<and>
              rows t' = map (\<lambda>r. map (\<lambda>col. cell r (index_of col (columns t)))
                                   relevant_columns) (rows t)))"
  using b
  by (auto simp: extract_csv_data_from_blob_def extract_body_def scan_csv_def)


text \<open>
  The claim as stated fails for an empty retain list with a non-empty mapping: the
  columns keep the source's names.
\<close>

theorem extractor_columns_counterexample:
  "map_option collect (extract_csv_data_from_blob \<lparr>storage_configured = True, blobs = [''ssa.csv'' \<mapsto> CsvFile \<lparr>columns = [''A'', ''B''], rows = [[PyInt 1, PyInt 2]]\<rparr>]\<rparr> ''ssa.csv'' [] [(''A'', ''a'')]) =
     Some (Inr \<lparr>columns = [''A'', ''B''], rows = [[PyInt 1, PyInt 2]]\<rparr>) \<and>
   map (rename_col [(''A'', ''a'')]) (columns \<lparr>columns = [''A'', ''B''], rows = [[PyInt 1, PyInt 2]]\<rparr>) = [''a'', ''B''] \<and>
   columns \<lparr>columns = [''A'', ''B''], rows = [[PyInt 1, PyInt 2]]\<rparr> \<noteq> [''a'', ''B'']"
  by (simp add: extract_csv_data_from_blob_def extract_body_def scan_csv_def rename_col_def)

text \<open>The amended claim at a retain list that reorders and renames two columns.\<close>

theorem extractor_columns_witness:
  "\<exists>lazy_df t'. extract_csv_data_from_blob \<lparr>storage_configured = True, blobs = [''ssa.csv'' \<mapsto> CsvFile \<lparr>columns = [''A'', ''B''], rows = [[PyInt 1, PyInt 2]]\<rparr>]\<rparr> ''ssa.csv'' [''B'', ''A'']
        [(''A'', ''a''), (''B'', ''b'')] = Some lazy_df \<and>
     collect lazy_df = Inr t' \<and> columns t' = [''b'', ''a''] \<and>
     rows t' = [[PyInt 2, PyInt 1]]"
proof -
  have b: "storage_configured \<lparr>storage_configured = True, blobs = [''ssa.csv'' \<mapsto> CsvFile \<lparr>columns = [''A'', ''B''], rows = [[PyInt 1, PyInt 2]]\<rparr>]\<rparr>" "blobs \<lparr>storage_configured = True, blobs = [''ssa.csv'' \<mapsto> CsvFile \<lparr>columns = [''A'', ''B''], rows = [[PyInt 1, PyInt 2]]\<rparr>]\<rparr> ''ssa.csv'' = Some (CsvFile \<lparr>columns = [''A'', ''B''], rows = [[PyInt 1, PyInt 2]]\<rparr>)"
    by simp_all
  have h: "[''B'', ''A''] \<noteq> [] \<and> set [''B'', ''A''] \<subseteq> set (columns \<lparr>columns = [''A'', ''B''], rows = [[PyInt 1, PyInt 2]]\<rparr>) \<and>
      distinct [''B'', ''A''] \<and>
      fst ` set [(''A'', ''a''), (''B'', ''b'')] \<subseteq> set [''B'', ''A''] \<and>
      distinct (map (rename_col [(''A'', ''a''), (''B'', ''b'')]) [''B'', ''A''])"
    by (simp add: rename_col_def)
  from extractor_columns [OF b, of "[''B'', ''A'']" "[(''A'', ''a''), (''B'', ''b'')]"] h
  obtain lazy_df t' where r:
    "extract_csv_data_from_blob \<lparr>storage_configured = True, blobs = [''ssa.csv'' \<mapsto> CsvFile \<lparr>columns = [''A'', ''B''], rows = [[PyInt 1, PyInt 2]]\<rparr>]\<rparr> ''ssa.csv'' [''B'', ''A'']
        [(''A'', ''a''), (''B'', ''b'')] = Some lazy_df"
    "collect lazy_df = Inr t'"
    "columns t' = map (rename_col [(''A'', ''a''), (''B'', ''b'')]) [''B'', ''A'']"
    "rows t' = map (\<lambda>r. map (\<lambda>col. cell r (index_of col (columns \<lparr>columns = [''A'', ''B''], rows = [[PyInt 1, PyInt 2]]\<rparr>))) [''B'', ''A''])
        (rows \<lparr>columns = [''A'', ''B''], rows = [[PyInt 1, PyInt 2]]\<rparr>)"
    by blast
  have "columns t' = [''b'', ''a'']" using r(3) by (simp add: rename_col_def)
  moreover have "rows t' = [[PyInt 2, PyInt 1]]" using r(4) by (simp add: cell_def)
  ultimately show ?thesis using r(1,2) by blast
qed

section \<open>Properties of the Extractor and its caller\<close>

text \<open>
  When the body of the Extractor raises (no storage configuration, no such blob, or a
  content that does not parse), the Extractor returns \<open>None\<close>, the caller leaves the
  store as it is, and the remaining targets are processed.
\<close>

lemma absent_source_is_skipped:
  assumes "\<not> storage_configured e \<or> blobs e filename = None \<or>
           blobs e filename = Some Unparsable"
  shows "extract_csv_data_from_blob e filename relevant_columns column_mapping = None"
    and "load_csv_target e connect_ok fails filename relevant_columns column_mapping
           target_table d = (None, d)"
  using assms
  by (auto simp: load_csv_target_def extract_csv_data_from_blob_def extract_body_def
      scan_csv_def)

lemma absent_first_source_proceeds:
  assumes "\<not> storage_configured e \<or> blobs e (csv_target_file_1 body) = None \<or>
           blobs e (csv_target_file_1 body) = Some Unparsable"
  shows "load_csv_targets e connect_ok fails body d =
     (case load_csv_target e connect_ok fails (csv_target_file_2 body) [] []
             ''ssa_fips_state_county'' d of
        (Some err, d2) \<Rightarrow> (Some err, d2)
      | (None, d2) \<Rightarrow>
          load_csv_target e connect_ok fails (csv_target_file_3 body)
            taxonomy_relevant_columns taxonomy_column_mapping ''nucc_taxonomy'' d2)"
  unfolding load_csv_targets_def absent_source_is_skipped(2) [OF assms] by simp

lemma load_fails_at_collect:
  "collect lazy_df = Inl err \<Longrightarrow>
     load_chunked_blob_data_to_postgres True fails lazy_df target_table c d =
       (Some err, close (connect d))"
  by (simp add: load_chunked_blob_data_to_postgres_def load_loop.simps collect_slice_def
      Let_def)

text \<open>
  Claim C4 at a source that parses but lacks six of the eight retained columns: the
  Extractor returns a dataset, not \<open>None\<close>; the missing columns are reported when the
  loader collects the first window; the failure leaves the loader and ends the run, and
  the two later sources, both well-formed, are not loaded.
\<close>

theorem missing_column_aborts_run:
  "extract_csv_data_from_blob \<lparr>storage_configured = True,
        blobs = [''zip.csv'' \<mapsto> CsvFile \<lparr>columns = [''ZIP'', ''COUNTY''], rows = [[PyStr ''00501'', PyStr ''36103'']]\<rparr>,
          ''ssa.csv'' \<mapsto> CsvFile \<lparr>columns = [''ssa_code''], rows = [[PyStr ''01000'']]\<rparr>,
          ''tax.csv'' \<mapsto> CsvFile \<lparr>columns = [''Code'', ''Grouping'', ''Classification'', ''Specialization''],
          rows = [[PyStr ''101Y00000X'', PyStr ''G'', PyStr ''Counselor'', PyNone]]\<rparr>]\<rparr> ''zip.csv''
       zip_county_relevant_columns zip_county_column_mapping \<noteq> None \<and>
   fst (load_csv_targets \<lparr>storage_configured = True,
        blobs = [''zip.csv'' \<mapsto> CsvFile \<lparr>columns = [''ZIP'', ''COUNTY''], rows = [[PyStr ''00501'', PyStr ''36103'']]\<rparr>,
          ''ssa.csv'' \<mapsto> CsvFile \<lparr>columns = [''ssa_code''], rows = [[PyStr ''01000'']]\<rparr>,
          ''tax.csv'' \<mapsto> CsvFile \<lparr>columns = [''Code'', ''Grouping'', ''Classification'', ''Specialization''],
          rows = [[PyStr ''101Y00000X'', PyStr ''G'', PyStr ''Counselor'', PyNone]]\<rparr>]\<rparr> True no_faults \<lparr>csv_target_file_1 = ''zip.csv'', csv_target_file_2 = ''ssa.csv'',
        csv_target_file_3 = ''tax.csv''\<rparr> empty_pg) = Some ColumnNotFoundError \<and>
   committed (snd (load_csv_targets \<lparr>storage_configured = True,
        blobs = [''zip.csv'' \<mapsto> CsvFile \<lparr>columns = [''ZIP'', ''COUNTY''], rows = [[PyStr ''00501'', PyStr ''36103'']]\<rparr>,
          ''ssa.csv'' \<mapsto> CsvFile \<lparr>columns = [''ssa_code''], rows = [[PyStr ''01000'']]\<rparr>,
          ''tax.csv'' \<mapsto> CsvFile \<lparr>columns = [''Code'', ''Grouping'', ''Classification'', ''Specialization''],
          rows = [[PyStr ''101Y00000X'', PyStr ''G'', PyStr ''Counselor'', PyNone]]\<rparr>]\<rparr> True no_faults \<lparr>csv_target_file_1 = ''zip.csv'', csv_target_file_2 = ''ssa.csv'',
        csv_target_file_3 = ''tax.csv''\<rparr> empty_pg))
       ''ssa_fips_state_county'' = [] \<and>
   committed (snd (load_csv_targets \<lparr>storage_configured = True,
        blobs = [''zip.csv'' \<mapsto> CsvFile \<lparr>columns = [''ZIP'', ''COUNTY''], rows = [[PyStr ''00501'', PyStr ''36103'']]\<rparr>,
          ''ssa.csv'' \<mapsto> CsvFile \<lparr>columns = [''ssa_code''], rows = [[PyStr ''01000'']]\<rparr>,
          ''tax.csv'' \<mapsto> CsvFile \<lparr>columns = [''Code'', ''Grouping'', ''Classification'', ''Specialization''],
          rows = [[PyStr ''101Y00000X'', PyStr ''G'', PyStr ''Counselor'', PyNone]]\<rparr>]\<rparr> True no_faults \<lparr>csv_target_file_1 = ''zip.csv'', csv_target_file_2 = ''ssa.csv'',
        csv_target_file_3 = ''tax.csv''\<rparr> empty_pg))
       ''nucc_taxonomy'' = []"
proof -
  have x: "extract_csv_data_from_blob \<lparr>storage_configured = True,
        blobs = [''zip.csv'' \<mapsto> CsvFile \<lparr>columns = [''ZIP'', ''COUNTY''], rows = [[PyStr ''00501'', PyStr ''36103'']]\<rparr>,
          ''ssa.csv'' \<mapsto> CsvFile \<lparr>columns = [''ssa_code''], rows = [[PyStr ''01000'']]\<rparr>,
          ''tax.csv'' \<mapsto> CsvFile \<lparr>columns = [''Code'', ''Grouping'', ''Classification'', ''Specialization''],
          rows = [[PyStr ''101Y00000X'', PyStr ''G'', PyStr ''Counselor'', PyNone]]\<rparr>]\<rparr> ''zip.csv''
       zip_county_relevant_columns zip_county_column_mapping =
     Some (Rename zip_county_column_mapping (Select zip_county_relevant_columns
       (ScanCsv \<lparr>columns = [''ZIP'', ''COUNTY''], rows = [[PyStr ''00501'', PyStr ''36103'']]\<rparr>)))"
    by (simp add: extract_csv_data_from_blob_def extract_body_def scan_csv_def
        zip_county_relevant_columns_def)
  have cl: "collect (Rename zip_county_column_mapping (Select zip_county_relevant_columns
       (ScanCsv \<lparr>columns = [''ZIP'', ''COUNTY''], rows = [[PyStr ''00501'', PyStr ''36103'']]\<rparr>))) = Inl ColumnNotFoundError"
    by (simp add: zip_county_relevant_columns_def)
  have "load_csv_targets \<lparr>storage_configured = True,
        blobs = [''zip.csv'' \<mapsto> CsvFile \<lparr>columns = [''ZIP'', ''COUNTY''], rows = [[PyStr ''00501'', PyStr ''36103'']]\<rparr>,
          ''ssa.csv'' \<mapsto> CsvFile \<lparr>columns = [''ssa_code''], rows = [[PyStr ''01000'']]\<rparr>,
          ''tax.csv'' \<mapsto> CsvFile \<lparr>columns = [''Code'', ''Grouping'', ''Classification'', ''Specialization''],
          rows = [[PyStr ''101Y00000X'', PyStr ''G'', PyStr ''Counselor'', PyNone]]\<rparr>]\<rparr> True no_faults \<lparr>csv_target_file_1 = ''zip.csv'', csv_target_file_2 = ''ssa.csv'',
        csv_target_file_3 = ''tax.csv''\<rparr> empty_pg =
      (Some ColumnNotFoundError, close (connect empty_pg))"
    by (simp add: load_csv_targets_def load_csv_target_def x load_fails_at_collect [OF cl])
  then show ?thesis
    by (simp add: x close_def connect_def log_event_def empty_pg_def)
qed

text \<open>
  The same run when the first source does not exist: it is skipped and the two later
  sources are loaded.
\<close>

lemma absent_source_run:
  "fst (load_csv_targets \<lparr>storage_configured = True,
        blobs = [''ssa.csv'' \<mapsto> CsvFile \<lparr>columns = [''ssa_code''], rows = [[PyStr ''01000'']]\<rparr>,
          ''tax.csv'' \<mapsto> CsvFile \<lparr>columns = [''Code'', ''Grouping'', ''Classification'', ''Specialization''],
          rows = [[PyStr ''101Y00000X'', PyStr ''G'', PyStr ''Counselor'', PyNone]]\<rparr>]\<rparr> True no_faults \<lparr>csv_target_file_1 = ''zip.csv'', csv_target_file_2 = ''ssa.csv'',
        csv_target_file_3 = ''tax.csv''\<rparr> empty_pg) = None \<and>
   committed (snd (load_csv_targets \<lparr>storage_configured = True,
        blobs = [''ssa.csv'' \<mapsto> CsvFile \<lparr>columns = [''ssa_code''], rows = [[PyStr ''01000'']]\<rparr>,
          ''tax.csv'' \<mapsto> CsvFile \<lparr>columns = [''Code'', ''Grouping'', ''Classification'', ''Specialization''],
          rows = [[PyStr ''101Y00000X'', PyStr ''G'', PyStr ''Counselor'', PyNone]]\<rparr>]\<rparr> True no_faults \<lparr>csv_target_file_1 = ''zip.csv'', csv_target_file_2 = ''ssa.csv'',
        csv_target_file_3 = ''tax.csv''\<rparr> empty_pg))
       ''ssa_fips_state_county'' = [[PyStr ''01000'']] \<and>
   committed (snd (load_csv_targets \<lparr>storage_configured = True,
        blobs = [''ssa.csv'' \<mapsto> CsvFile \<lparr>columns = [''ssa_code''], rows = [[PyStr ''01000'']]\<rparr>,
          ''tax.csv'' \<mapsto> CsvFile \<lparr>columns = [''Code'', ''Grouping'', ''Classification'', ''Specialization''],
          rows = [[PyStr ''101Y00000X'', PyStr ''G'', PyStr ''Counselor'', PyNone]]\<rparr>]\<rparr> True no_faults \<lparr>csv_target_file_1 = ''zip.csv'', csv_target_file_2 = ''ssa.csv'',
        csv_target_file_3 = ''tax.csv''\<rparr> empty_pg))
       ''nucc_taxonomy'' = [[PyStr ''101Y00000X'', PyStr ''G'', PyStr ''Counselor'', PyNone]]"
proof -
  have ok: "\<forall>k st. \<not> no_faults k st" by (simp add: no_faults_def)
  have c: "(0::nat) < 100000" by simp
  have a: "\<not> storage_configured \<lparr>storage_configured = True,
        blobs = [''ssa.csv'' \<mapsto> CsvFile \<lparr>columns = [''ssa_code''], rows = [[PyStr ''01000'']]\<rparr>,
          ''tax.csv'' \<mapsto> CsvFile \<lparr>columns = [''Code'', ''Grouping'', ''Classification'', ''Specialization''],
          rows = [[PyStr ''101Y00000X'', PyStr ''G'', PyStr ''Counselor'', PyNone]]\<rparr>]\<rparr> \<or> blobs \<lparr>storage_configured = True,
        blobs = [''ssa.csv'' \<mapsto> CsvFile \<lparr>columns = [''ssa_code''], rows = [[PyStr ''01000'']]\<rparr>,
          ''tax.csv'' \<mapsto> CsvFile \<lparr>columns = [''Code'', ''Grouping'', ''Classification'', ''Specialization''],
          rows = [[PyStr ''101Y00000X'', PyStr ''G'', PyStr ''Counselor'', PyNone]]\<rparr>]\<rparr> (csv_target_file_1 \<lparr>csv_target_file_1 = ''zip.csv'', csv_target_file_2 = ''ssa.csv'',
        csv_target_file_3 = ''tax.csv''\<rparr>) = None \<or>
           blobs \<lparr>storage_configured = True,
        blobs = [''ssa.csv'' \<mapsto> CsvFile \<lparr>columns = [''ssa_code''], rows = [[PyStr ''01000'']]\<rparr>,
          ''tax.csv'' \<mapsto> CsvFile \<lparr>columns = [''Code'', ''Grouping'', ''Classification'', ''Specialization''],
          rows = [[PyStr ''101Y00000X'', PyStr ''G'', PyStr ''Counselor'', PyNone]]\<rparr>]\<rparr> (csv_target_file_1 \<lparr>csv_target_file_1 = ''zip.csv'', csv_target_file_2 = ''ssa.csv'',
        csv_target_file_3 = ''tax.csv''\<rparr>) = Some Unparsable"
    by simp
  have x2: "extract_csv_data_from_blob \<lparr>storage_configured = True,
        blobs = [''ssa.csv'' \<mapsto> CsvFile \<lparr>columns = [''ssa_code''], rows = [[PyStr ''01000'']]\<rparr>,
          ''tax.csv'' \<mapsto> CsvFile \<lparr>columns = [''Code'', ''Grouping'', ''Classification'', ''Specialization''],
          rows = [[PyStr ''101Y00000X'', PyStr ''G'', PyStr ''Counselor'', PyNone]]\<rparr>]\<rparr> ''ssa.csv'' [] [] = Some (ScanCsv \<lparr>columns = [''ssa_code''], rows = [[PyStr ''01000'']]\<rparr>)"
    by (simp add: extract_csv_data_from_blob_def extract_body_def scan_csv_def)
  have x3: "extract_csv_data_from_blob \<lparr>storage_configured = True,
        blobs = [''ssa.csv'' \<mapsto> CsvFile \<lparr>columns = [''ssa_code''], rows = [[PyStr ''01000'']]\<rparr>,
          ''tax.csv'' \<mapsto> CsvFile \<lparr>columns = [''Code'', ''Grouping'', ''Classification'', ''Specialization''],
          rows = [[PyStr ''101Y00000X'', PyStr ''G'', PyStr ''Counselor'', PyNone]]\<rparr>]\<rparr> ''tax.csv'' taxonomy_relevant_columns
      taxonomy_column_mapping =
      Some (Rename taxonomy_column_mapping (Select taxonomy_relevant_columns (ScanCsv \<lparr>columns = [''Code'', ''Grouping'', ''Classification'', ''Specialization''],
          rows = [[PyStr ''101Y00000X'', PyStr ''G'', PyStr ''Counselor'', PyNone]]\<rparr>)))"
    by (simp add: extract_csv_data_from_blob_def extract_body_def scan_csv_def
        taxonomy_relevant_columns_def)
  have c2: "collect (ScanCsv \<lparr>columns = [''ssa_code''], rows = [[PyStr ''01000'']]\<rparr>) = Inr \<lparr>columns = [''ssa_code''], rows = [[PyStr ''01000'']]\<rparr>" by simp
  have c3: "collect (Rename taxonomy_column_mapping (Select taxonomy_relevant_columns
      (ScanCsv \<lparr>columns = [''Code'', ''Grouping'', ''Classification'', ''Specialization''],
          rows = [[PyStr ''101Y00000X'', PyStr ''G'', PyStr ''Counselor'', PyNone]]\<rparr>))) =
      Inr \<lparr>columns = [''code'', ''grouping'', ''classification'', ''specialization''],
          rows = [[PyStr ''101Y00000X'', PyStr ''G'', PyStr ''Counselor'', PyNone]]\<rparr>"
    by (simp add: taxonomy_relevant_columns_def taxonomy_column_mapping_def rename_col_def
        cell_def)
  have lc: "loaded_chunks ''ssa_fips_state_county'' (Suc 0) 100000 = 1"
    "loaded_chunks ''nucc_taxonomy'' (Suc 0) 100000 = 1"
    by (simp_all add: loaded_chunks_def ceil_div_def)
  note r2 = load_no_faults [OF c2 c ok, of "''ssa_fips_state_county''"]
  note r3 = load_no_faults [OF c3 c ok, of "''nucc_taxonomy''"]
  show ?thesis
    unfolding absent_first_source_proceeds [OF a]
    by (simp add: load_csv_target_def x2 x3 r2 r3 lc empty_pg_def)
qed


section \<open>Properties of the API Snapshot Loader\<close>

lemma clean_frame_append:
  "clean_frame to_int32 (xs @ ys) = clean_frame to_int32 xs @ clean_frame to_int32 ys"
  by (simp add: clean_frame_def)

lemma clean_frame_incomplete:
  "\<not> is_complete (cast_population to_int32 r) \<Longrightarrow> clean_frame to_int32 [r] = []"
  by (simp add: clean_frame_def)

text \<open>
  Claim C9. The population column is coerced to an integer, a value that is not
  coercible becoming null; then a row with a null in any of \<open>name\<close>, \<open>population\<close>,
  \<open>state_fips\<close>, \<open>county_fips\<close> is dropped, wherever it stands in the frame, and every
  row that is kept comes from a row without such a null. A row whose population is
  \<open>"abc"\<close> is dropped, \<open>"abc"\<close> not being coercible.
\<close>

theorem api_rows_with_null_dropped:
  "(name r = None \<or> population r = None \<or> (\<exists>s. population r = Some s \<and> to_int32 s = None) \<or>
    state_fips r = None \<or> county_fips r = None \<longrightarrow>
      clean_frame to_int32 (xs @ r # ys) = clean_frame to_int32 (xs @ ys)) \<and>
   (\<forall>fs \<in> set (clean_frame to_int32 df).
      \<exists>r' \<in> set df. \<exists>i. name r' \<noteq> None \<and> state_fips r' \<noteq> None \<and> county_fips r' \<noteq> None \<and>
        (\<exists>s. population r' = Some s \<and> to_int32 s = Some i) \<and>
        fs = as_strings (cast_population to_int32 r')) \<and>
   (to_int32 ''abc'' = None \<longrightarrow>
      clean_frame to_int32 (xs @ r\<lparr>population := Some ''abc''\<rparr> # ys) =
      clean_frame to_int32 (xs @ ys)) \<and>
   decimal_int32 ''abc'' = None"
proof (intro conjI impI ballI)
  assume "name r = None \<or> population r = None \<or>
    (\<exists>s. population r = Some s \<and> to_int32 s = None) \<or>
    state_fips r = None \<or> county_fips r = None"
  then have "\<not> is_complete (cast_population to_int32 r)"
    by (auto simp: is_complete_def cast_population_def)
  then have "clean_frame to_int32 [r] = []" by (rule clean_frame_incomplete)
  then show "clean_frame to_int32 (xs @ r # ys) = clean_frame to_int32 (xs @ ys)"
    using clean_frame_append [of to_int32 xs "[r] @ ys"]
      clean_frame_append [of to_int32 "[r]" ys] clean_frame_append [of to_int32 xs ys]
    by simp
next
  fix fs assume "fs \<in> set (clean_frame to_int32 df)"
  then obtain r' where r': "r' \<in> set df" "is_complete (cast_population to_int32 r')"
    "fs = as_strings (cast_population to_int32 r')"
    by (auto simp: clean_frame_def)
  from r'(2) obtain i where "name r' \<noteq> None" "state_fips r' \<noteq> None"
    "county_fips r' \<noteq> None" "\<exists>s. population r' = Some s \<and> to_int32 s = Some i"
    by (auto simp: is_complete_def cast_population_def split: option.splits)
  with r'(1,3) show "\<exists>r' \<in> set df. \<exists>i. name r' \<noteq> None \<and> state_fips r' \<noteq> None \<and>
      county_fips r' \<noteq> None \<and> (\<exists>s. population r' = Some s \<and> to_int32 s = Some i) \<and>
      fs = as_strings (cast_population to_int32 r')"
    by blast
next
  assume "to_int32 ''abc'' = None"
  then have "\<not> is_complete (cast_population to_int32 (r\<lparr>population := Some ''abc''\<rparr>))"
    by (simp add: is_complete_def cast_population_def)
  then have "clean_frame to_int32 [r\<lparr>population := Some ''abc''\<rparr>] = []"
    by (rule clean_frame_incomplete)
  then show "clean_frame to_int32 (xs @ r\<lparr>population := Some ''abc''\<rparr> # ys) =
      clean_frame to_int32 (xs @ ys)"
    using clean_frame_append [of to_int32 xs "[r\<lparr>population := Some ''abc''\<rparr>] @ ys"]
      clean_frame_append [of to_int32 "[r\<lparr>population := Some ''abc''\<rparr>]" ys]
      clean_frame_append [of to_int32 xs ys]
    by simp
next
  show "decimal_int32 ''abc'' = None"
    by (simp add: decimal_int32_def is_digit_def)
qed


text \<open>
  The theorem at a frame of two rows, the second with the population \<open>"abc"\<close>: only the
  first is kept.
\<close>

theorem api_rows_with_null_dropped_witness:
  "clean_frame decimal_int32 [\<lparr>name = Some ''Kent'', population = Some ''58805'', state_fips = Some ''01'',
        county_fips = Some ''001''\<rparr>, \<lparr>name = Some ''Lee'', population = Some ''abc'', state_fips = Some ''01'',
        county_fips = Some ''003''\<rparr>] = [[''Kent'', ''58805'', ''01'', ''001'']]"
proof -
  have h: "name (\<lparr>name = Some ''Lee'', population = Some ''abc'', state_fips = Some ''01'',
        county_fips = Some ''003''\<rparr>) = None \<or> population (\<lparr>name = Some ''Lee'', population = Some ''abc'', state_fips = Some ''01'',
        county_fips = Some ''003''\<rparr>) = None \<or>
      (\<exists>s. population (\<lparr>name = Some ''Lee'', population = Some ''abc'', state_fips = Some ''01'',
        county_fips = Some ''003''\<rparr>) = Some s \<and> decimal_int32 s = None) \<or>
      state_fips (\<lparr>name = Some ''Lee'', population = Some ''abc'', state_fips = Some ''01'',
        county_fips = Some ''003''\<rparr>) = None \<or> county_fips (\<lparr>name = Some ''Lee'', population = Some ''abc'', state_fips = Some ''01'',
        county_fips = Some ''003''\<rparr>) = None"
    by (simp add: decimal_int32_def is_digit_def)
  from api_rows_with_null_dropped [of "\<lparr>name = Some ''Lee'', population = Some ''abc'', state_fips = Some ''01'',
        county_fips = Some ''003''\<rparr>" decimal_int32 "[\<lparr>name = Some ''Kent'', population = Some ''58805'', state_fips = Some ''01'',
        county_fips = Some ''001''\<rparr>]" "[]"] h
  have "clean_frame decimal_int32 ([\<lparr>name = Some ''Kent'', population = Some ''58805'', state_fips = Some ''01'',
        county_fips = Some ''001''\<rparr>] @ \<lparr>name = Some ''Lee'', population = Some ''abc'', state_fips = Some ''01'',
        county_fips = Some ''003''\<rparr> # []) = clean_frame decimal_int32 ([\<lparr>name = Some ''Kent'', population = Some ''58805'', state_fips = Some ''01'',
        county_fips = Some ''001''\<rparr>] @ [])"
    by blast
  moreover have "clean_frame decimal_int32 [\<lparr>name = Some ''Kent'', population = Some ''58805'', state_fips = Some ''01'',
        county_fips = Some ''001''\<rparr>] = [[''Kent'', ''58805'', ''01'', ''001'']]"
    by (simp add: clean_frame_def cast_population_def is_complete_def as_strings_def
        fill_null_def not_blank_def strip_chars_def is_space_def decimal_int32_def
        is_digit_def digits_value_def str_int_def)
  ultimately show ?thesis by simp
qed


lemma length_split_on: "length (split_on sep s) = Suc (length (filter (\<lambda>ch. ch = sep) s))"
  by (induction s) (auto split: list.splits)

lemma newline_linebreak: "is_linebreak newline" "newline \<noteq> cr"
  by (simp_all add: is_linebreak_def newline_def cr_def)

lemma splitlines_from_piece:
  "splitlines_from cur (p @ newline # rest) =
     splitlines_from cur (p @ [newline]) @ splitlines_from [] rest"
proof (induction cur p rule: splitlines_from.induct)
  case (1 cur)
  show ?case using newline_linebreak by (cases rest) simp_all
next
  case (2 cur ch)
  have a: "splitlines_from [] (newline # rest) = [] # splitlines_from [] rest"
    using newline_linebreak by (cases rest) simp_all
  have b: "\<And>c. splitlines_from c (newline # rest) = c # splitlines_from [] rest"
    using newline_linebreak by (cases rest) simp_all
  show ?case using newline_linebreak by (simp add: a b)
next
  case (3 cur ch ch' rest')
  then show ?case by simp
qed

lemma splitlines_from_plain:
  "\<forall>ch \<in> set l. \<not> is_linebreak ch \<Longrightarrow> splitlines_from cur (l @ [newline]) = [cur @ l]"
proof (induction cur l rule: splitlines_from.induct)
  case (1 cur)
  show ?case using newline_linebreak by simp
next
  case (2 cur ch)
  then show ?case using newline_linebreak by (auto simp: is_linebreak_def cr_def)
next
  case (3 cur ch ch' rest')
  then show ?case by (auto simp: is_linebreak_def cr_def)
qed

lemma splitlines_write_csv:
  "splitlines (write_csv df @ rest) = splitlines (write_csv df) @ splitlines rest"
proof (induction df)
  case Nil
  show ?case by (simp add: write_csv_def splitlines_def)
next
  case (Cons fs df)
  have "splitlines (write_csv (fs # df) @ rest) =
      splitlines_from [] (csv_line fs @ newline # (write_csv df @ rest))"
    by (simp add: write_csv_def splitlines_def)
  also have "\<dots> = splitlines_from [] (csv_line fs @ [newline]) @ splitlines (write_csv df @ rest)"
    unfolding splitlines_def by (rule splitlines_from_piece)
  also have "\<dots> = splitlines_from [] (csv_line fs @ [newline]) @
      splitlines (write_csv df) @ splitlines rest"
    by (simp only: Cons.IH)
  finally have e: "splitlines (write_csv (fs # df) @ rest) =
      (splitlines_from [] (csv_line fs @ [newline]) @ splitlines (write_csv df)) @
      splitlines rest"
    by simp
  have "splitlines_from [] (csv_line fs @ [newline]) @ splitlines (write_csv df) =
      splitlines (write_csv (fs # df))"
    using splitlines_from_piece [of "[]" "csv_line fs" "write_csv df"]
    by (simp add: write_csv_def splitlines_def)
  with e show ?case by simp
qed


lemma tab_not_dq: "tab \<noteq> dq" "\<not> is_linebreak tab" "\<not> is_linebreak dq"
  by (simp_all add: tab_def dq_def is_linebreak_def)

lemma filter_tab_replace_dq:
  "filter (\<lambda>ch. ch = tab) (replace_dq f) = filter (\<lambda>ch. ch = tab) f"
  using tab_not_dq(1) by (induction f) auto

lemma set_replace_dq: "set (replace_dq f) = set f"
  by (induction f) auto

lemma filter_tab_csv_field:
  "filter (\<lambda>ch. ch = tab) (csv_field f) = filter (\<lambda>ch. ch = tab) f"
  using tab_not_dq(1) by (simp add: csv_field_def filter_tab_replace_dq)

lemma linebreak_csv_field:
  "\<forall>ch \<in> set f. \<not> is_linebreak ch \<Longrightarrow> \<forall>ch \<in> set (csv_field f). \<not> is_linebreak ch"
  using tab_not_dq(3) by (auto simp: csv_field_def set_replace_dq)

lemma csv_line_four:
  "csv_line [a, b, c, d] =
     csv_field a @ tab # csv_field b @ tab # csv_field c @ tab # csv_field d"
  by (simp add: csv_line_def)

lemma tab_row_no_line:
  assumes len: "length fs = 4" and tb: "\<exists>f \<in> set fs. tab \<in> set f"
    and nl: "\<forall>f \<in> set fs. \<forall>ch \<in> set f. \<not> is_linebreak ch"
  shows "cleaned_lines (csv_line fs @ [newline]) = []"
proof -
  from len obtain a b c d where fs: "fs = [a, b, c, d]"
    by (auto simp: length_Suc_conv numeral_eq_Suc)
  have plain: "\<forall>ch \<in> set (csv_line fs). \<not> is_linebreak ch"
    using nl linebreak_csv_field tab_not_dq(2) unfolding fs csv_line_four by auto
  have one: "splitlines (csv_line fs @ [newline]) = [csv_line fs]"
    unfolding splitlines_def using splitlines_from_plain [OF plain, of "[]"] by simp
  from tb have "filter (\<lambda>ch. ch = tab) a @ filter (\<lambda>ch. ch = tab) b @
      filter (\<lambda>ch. ch = tab) c @ filter (\<lambda>ch. ch = tab) d \<noteq> []"
    unfolding fs by (auto simp: filter_empty_conv)
  then have "length (filter (\<lambda>ch. ch = tab) a) + length (filter (\<lambda>ch. ch = tab) b) +
      length (filter (\<lambda>ch. ch = tab) c) + length (filter (\<lambda>ch. ch = tab) d) > 0"
    by auto
  then have "length (split_on tab (csv_line fs)) \<noteq> 4"
    unfolding fs csv_line_four by (simp add: length_split_on filter_tab_csv_field)
  then show ?thesis by (simp add: cleaned_lines_def one)
qed

lemma cleaned_lines_write_csv_append:
  "cleaned_lines (write_csv (xs @ ys)) =
     cleaned_lines (write_csv xs) @ cleaned_lines (write_csv ys)"
proof -
  have "write_csv (xs @ ys) = write_csv xs @ write_csv ys" by (simp add: write_csv_def)
  then show ?thesis by (simp add: cleaned_lines_def splitlines_write_csv)
qed

text \<open>
  Claim C10, as amended. Every line that is loaded is non-blank and splits into exactly 4
  tab-separated fields. Therefore a row of the cleaned frame in which a field contains a
  tab, and in which no field contains a line boundary, contributes no line to the load,
  wherever it stands, although it passed the null and blank-row filters.
\<close>

theorem api_lines_four_fields:
  "(\<forall>l \<in> set (cleaned_lines output). strip_nonempty l \<and> length (split_on tab l) = 4) \<and>
   (api_lines to_int32 data = Inr ls \<longrightarrow>
      (\<forall>l \<in> set ls. strip_nonempty l \<and> length (split_on tab l) = 4)) \<and>
   (length fs = 4 \<and> (\<exists>f \<in> set fs. tab \<in> set f) \<and>
    (\<forall>f \<in> set fs. \<forall>ch \<in> set f. \<not> is_linebreak ch) \<longrightarrow>
      cleaned_lines (write_csv (xs @ fs # ys)) = cleaned_lines (write_csv (xs @ ys)))"
proof (intro conjI impI)
  show "\<forall>l \<in> set (cleaned_lines output). strip_nonempty l \<and> length (split_on tab l) = 4"
    by (simp add: cleaned_lines_def)
next
  assume "api_lines to_int32 data = Inr ls"
  then show "\<forall>l \<in> set ls. strip_nonempty l \<and> length (split_on tab l) = 4"
    by (auto simp: api_lines_def cleaned_lines_def split: sum.splits)
next
  assume a: "length fs = 4 \<and> (\<exists>f \<in> set fs. tab \<in> set f) \<and>
    (\<forall>f \<in> set fs. \<forall>ch \<in> set f. \<not> is_linebreak ch)"
  then have "cleaned_lines (csv_line fs @ [newline]) = []"
    using tab_row_no_line [of fs] by blast
  then have "cleaned_lines (write_csv [fs]) = []" by (simp add: write_csv_def)
  then show "cleaned_lines (write_csv (xs @ fs # ys)) = cleaned_lines (write_csv (xs @ ys))"
    using cleaned_lines_write_csv_append [of xs "[fs] @ ys"]
      cleaned_lines_write_csv_append [of "[fs]" ys]
      cleaned_lines_write_csv_append [of xs ys]
    by simp
qed


text \<open>
  The claim as stated fails for a newline inside a field: the row is written over two
  lines, and the second of them has exactly 4 tab-separated fields, so it is loaded.
\<close>

theorem api_lines_four_fields_counterexample:
  "api_lines decimal_int32 [[Some ''NAME'', Some ''B01001_001E'', Some ''state'', Some ''county''], [Some [CHR ''a'', newline, CHR ''b''], Some ''1'', Some ''01'', Some ''001'']] = Inr [[CHR ''b'', dq, tab, CHR ''1'', tab, CHR ''0'', CHR ''1'', tab, CHR ''0'', CHR ''0'', CHR ''1'']]"
proof -
  have u: "[0..<4] = [0, 1, 2, 3::nat]" by (simp add: upt_rec numeral_eq_Suc)
  have f: "api_frame [[Some ''NAME'', Some ''B01001_001E'', Some ''state'', Some ''county''], [Some [CHR ''a'', newline, CHR ''b''], Some ''1'', Some ''01'', Some ''001'']] =
      Inr [\<lparr>name = Some [CHR ''a'', newline, CHR ''b''], population = Some ''1'',
            state_fips = Some ''01'', county_fips = Some ''001''\<rparr>]"
    by (simp add: api_frame_def zip_star_def shortest_def Let_def u)
  have c: "clean_frame decimal_int32
      [\<lparr>name = Some [CHR ''a'', newline, CHR ''b''], population = Some ''1'',
            state_fips = Some ''01'', county_fips = Some ''001''\<rparr>] =
      [[[CHR ''a'', newline, CHR ''b''], ''1'', ''01'', ''001'']]"
    by (simp add: clean_frame_def cast_population_def is_complete_def as_strings_def
        fill_null_def not_blank_def strip_chars_def is_space_def decimal_int32_def
        is_digit_def digits_value_def str_int_def newline_def)
  have w: "write_csv [[[CHR ''a'', newline, CHR ''b''], ''1'', ''01'', ''001'']] =
      [dq, CHR ''a'', newline, CHR ''b'', dq, tab, CHR ''1'', tab, CHR ''0'', CHR ''1'', tab,
       CHR ''0'', CHR ''0'', CHR ''1'', newline]"
    by (simp add: write_csv_def csv_line_def csv_field_def needs_quotes_def newline_def
        dq_def tab_def cr_def)
  have l: "cleaned_lines
      [dq, CHR ''a'', newline, CHR ''b'', dq, tab, CHR ''1'', tab, CHR ''0'', CHR ''1'', tab,
       CHR ''0'', CHR ''0'', CHR ''1'', newline] = [[CHR ''b'', dq, tab, CHR ''1'', tab, CHR ''0'', CHR ''1'', tab, CHR ''0'', CHR ''0'', CHR ''1'']]"
    by (simp add: cleaned_lines_def splitlines_def is_linebreak_def strip_nonempty_def
        py_isspace_def newline_def dq_def tab_def cr_def)
  show ?thesis by (simp add: api_lines_def f c w l)
qed

text \<open>
  The amended claim at a frame of two rows, the second with a tab inside its first field:
  only the line of the first row is loaded.
\<close>

theorem api_lines_four_fields_witness:
  "cleaned_lines (write_csv [[''Kent'', ''2'', ''01'', ''001''],
      [[CHR ''a'', tab, CHR ''b''], ''1'', ''01'', ''003'']]) =
     [[CHR ''K'', CHR ''e'', CHR ''n'', CHR ''t'', tab, CHR ''2'', tab, CHR ''0'', CHR ''1'', tab,
       CHR ''0'', CHR ''0'', CHR ''1'']]"
proof -
  have h: "length [[CHR ''a'', tab, CHR ''b''], ''1'', ''01'', ''003''] = 4 \<and>
      (\<exists>f \<in> set [[CHR ''a'', tab, CHR ''b''], ''1'', ''01'', ''003'']. tab \<in> set f) \<and>
      (\<forall>f \<in> set [[CHR ''a'', tab, CHR ''b''], ''1'', ''01'', ''003''].
         \<forall>ch \<in> set f. \<not> is_linebreak ch)"
    by (simp add: is_linebreak_def tab_def)
  from api_lines_four_fields
    [of _ _ _ _ "[[CHR ''a'', tab, CHR ''b''], ''1'', ''01'', ''003'']"
      "[[''Kent'', ''2'', ''01'', ''001'']]" "[]"] h
  have "cleaned_lines (write_csv ([[''Kent'', ''2'', ''01'', ''001'']] @
      [[CHR ''a'', tab, CHR ''b''], ''1'', ''01'', ''003''] # [])) =
      cleaned_lines (write_csv ([[''Kent'', ''2'', ''01'', ''001'']] @ []))"
    by blast
  moreover have "cleaned_lines (write_csv [[''Kent'', ''2'', ''01'', ''001'']]) =
     [[CHR ''K'', CHR ''e'', CHR ''n'', CHR ''t'', tab, CHR ''2'', tab, CHR ''0'', CHR ''1'', tab,
       CHR ''0'', CHR ''0'', CHR ''1'']]"
    by (simp add: write_csv_def csv_line_def csv_field_def needs_quotes_def
        cleaned_lines_def splitlines_def is_linebreak_def strip_nonempty_def
        py_isspace_def newline_def dq_def tab_def cr_def)
  ultimately show ?thesis by simp
qed

end
